theory Spec2Isabelle
  imports Main
begin

section \<open>JavaScript values, errors and the fetch interface\<close>

text \<open>
  The SDK never looks inside a user record: it forwards whatever JSON value the remote
  service sent. Values are therefore modelled as parsed JSON, extended with
  \<open>undefined\<close> (what reading a missing property yields). Numbers are integers here;
  no function of the SDK computes with them.
\<close>

datatype jsval =
    JUndefined
  | JNull
  | JBool bool
  | JNum int
  | JStr string
  | JArr "jsval list"
  | JObj "(string \<times> jsval) list"

text \<open>Values that can be thrown, or that a promise can be rejected with.\<close>

datatype error =
    Error string              \<comment> \<open>\<open>new Error(message)\<close>\<close>
  | TypeError                 \<comment> \<open>destructuring \<open>null\<close> or \<open>undefined\<close>\<close>
  | SyntaxError               \<comment> \<open>\<open>response.json()\<close> on a body that is not JSON\<close>
  | NetworkError string       \<comment> \<open>the rejection of \<open>fetch\<close> itself\<close>
  | HTTPException nat string  \<comment> \<open>hono's \<open>HTTPException(status, {message})\<close>\<close>

record request =
  http_method :: string
  url :: string
  headers :: "(string \<times> string) list"
  body :: "jsval option"

text \<open>
  A response as the SDK reads it: \<open>response.ok\<close>, \<open>response.status\<close>,
  \<open>response.statusText\<close> and the outcome of \<open>response.json()\<close>
  (\<open>None\<close> when the body does not parse).
\<close>

record response =
  ok :: bool
  status :: nat
  statusText :: string
  json :: "jsval option"

datatype fetch_result = Rejected error | Resolved response

text \<open>JavaScript truthiness, as tested by \<open>!user\<close>.\<close>

fun truthy :: "jsval \<Rightarrow> bool" where
  "truthy JUndefined = False"
| "truthy JNull = False"
| "truthy (JBool b) = b"
| "truthy (JNum n) = (n \<noteq> 0)"
| "truthy (JStr s) = (s \<noteq> [])"
| "truthy (JArr xs) = True"
| "truthy (JObj kvs) = True"

text \<open>
  \<open>const { key } = value\<close>: a \<open>TypeError\<close> on \<open>null\<close> and \<open>undefined\<close>,
  the property of an object, and \<open>undefined\<close> where the property is missing (none of
  the keys the SDK reads is a property of a primitive or of an array).
\<close>

fun destructure :: "string \<Rightarrow> jsval \<Rightarrow> error + jsval" where
  "destructure k JUndefined = Inl TypeError"
| "destructure k JNull = Inl TypeError"
| "destructure k (JObj kvs) = Inr (case map_of kvs k of None \<Rightarrow> JUndefined | Some v \<Rightarrow> v)"
| "destructure k v = Inr JUndefined"

text \<open>Decimal digits of a number, for \<open>${response.status}\<close> in a template string.\<close>

fun string_of_nat :: "nat \<Rightarrow> string" where
  "string_of_nat n =
     (if n < 10 then [char_of (48 + n)]
      else string_of_nat (n div 10) @ [char_of (48 + n mod 10)])"

section \<open>Session Client and Request Authenticator (backend module)\<close>

record MochaUsersServiceOptions =
  apiUrl :: "string option"
  apiKey :: string

definition DEFAULT_MOCHA_USERS_SERVICE_API_URL :: string where
  "DEFAULT_MOCHA_USERS_SERVICE_API_URL = ''https://getmocha.com/u''"

definition MOCHA_SESSION_TOKEN_COOKIE_NAME :: string where
  "MOCHA_SESSION_TOKEN_COOKIE_NAME = ''mocha_session_token''"

definition SUPPORTED_OAUTH_PROVIDERS :: "string list" where
  "SUPPORTED_OAUTH_PROVIDERS = [''google'']"

text \<open>\<open>options.apiUrl || DEFAULT_MOCHA_USERS_SERVICE_API_URL\<close>: the empty string is falsy too.\<close>

definition api_base :: "MochaUsersServiceOptions \<Rightarrow> string" where
  "api_base options =
     (case apiUrl options of
        None \<Rightarrow> DEFAULT_MOCHA_USERS_SERVICE_API_URL
      | Some u \<Rightarrow> if u = [] then DEFAULT_MOCHA_USERS_SERVICE_API_URL else u)"

definition redirect_url_request :: "string \<Rightarrow> MochaUsersServiceOptions \<Rightarrow> request" where
  "redirect_url_request provider options =
     \<lparr> http_method = ''GET'',
       url = api_base options @ ''/oauth/'' @ provider @ ''/redirect_url'',
       headers = [(''Content-Type'', ''application/json''), (''x-api-key'', apiKey options)],
       body = None \<rparr>"

text \<open>
  The backend functions run against the network given as a function \<open>net\<close> from the
  request to what \<open>fetch\<close> settles with. Each returns its result (\<open>Inl\<close>: the promise
  is rejected with that error) and the requests it issued, in order.
\<close>

definition getOAuthRedirectUrl ::
  "(request \<Rightarrow> fetch_result) \<Rightarrow> string \<Rightarrow> MochaUsersServiceOptions \<Rightarrow> (error + jsval) \<times> request list"
where
  "getOAuthRedirectUrl net provider options =
     (if provider \<notin> set SUPPORTED_OAUTH_PROVIDERS
      then (Inl (Error (''Unsupported OAuth provider: '' @ provider)), [])
      else
        let req = redirect_url_request provider options in
        (case net req of
           Rejected e \<Rightarrow> (Inl e, [req])
         | Resolved r \<Rightarrow>
             if \<not> ok r
             then (Inl (Error (''Failed to get redirect URL for provider '' @ provider @ '': ''
                               @ statusText r)), [req])
             else (case json r of
                     None \<Rightarrow> (Inl SyntaxError, [req])
                   | Some v \<Rightarrow> (destructure ''redirect_url'' v, [req]))))"

definition users_me_request :: "string \<Rightarrow> MochaUsersServiceOptions \<Rightarrow> request" where
  "users_me_request sessionToken options =
     \<lparr> http_method = ''GET'',
       url = api_base options @ ''/users/me'',
       headers = [(''Authorization'', ''Bearer '' @ sessionToken), (''x-api-key'', apiKey options)],
       body = None \<rparr>"

text \<open>The body of the \<open>try\<close> block of \<open>getCurrentUser\<close>.\<close>

definition getCurrentUser_try ::
  "(request \<Rightarrow> fetch_result) \<Rightarrow> string \<Rightarrow> MochaUsersServiceOptions \<Rightarrow> error + jsval"
where
  "getCurrentUser_try net sessionToken options =
     (case net (users_me_request sessionToken options) of
        Rejected e \<Rightarrow> Inl e
      | Resolved r \<Rightarrow>
          if \<not> ok r then Inr JNull
          else (case json r of
                  None \<Rightarrow> Inl SyntaxError
                | Some v \<Rightarrow> destructure ''data'' v))"

text \<open>
  \<open>getCurrentUser\<close>: the \<open>catch\<close> clause logs the error and returns \<open>null\<close>. The
  third component is what was written to \<open>console.error\<close>.
\<close>

definition getCurrentUser ::
  "(request \<Rightarrow> fetch_result) \<Rightarrow> string \<Rightarrow> MochaUsersServiceOptions
     \<Rightarrow> (error + jsval) \<times> request list \<times> error list"
where
  "getCurrentUser net sessionToken options =
     (case getCurrentUser_try net sessionToken options of
        Inl e \<Rightarrow> (Inr JNull, [users_me_request sessionToken options], [e])
      | Inr v \<Rightarrow> (Inr v, [users_me_request sessionToken options], []))"

text \<open>
  The part of hono's context the middleware touches: what \<open>getCookie(c, name)\<close>
  returns, the two environment bindings, and the variables set with \<open>c.set\<close>.
\<close>

record hono_ctx =
  getCookie :: "string \<Rightarrow> jsval"
  MOCHA_USERS_SERVICE_API_URL :: "string option"
  MOCHA_USERS_SERVICE_API_KEY :: string
  vars :: "string \<rightharpoonup> jsval"

text \<open>
  How the middleware ends: it returns a JSON response with a status
  (\<open>c.json(body, status)\<close>), or it reaches \<open>await next()\<close> with the context the
  downstream handlers see. A thrown exception is the \<open>Inl\<close> of the result.
\<close>

datatype mw_outcome = Responded jsval nat | Next hono_ctx

definition authMiddleware ::
  "(request \<Rightarrow> fetch_result) \<Rightarrow> hono_ctx \<Rightarrow> (error + mw_outcome) \<times> request list"
where
  "authMiddleware net c =
     (case getCookie c MOCHA_SESSION_TOKEN_COOKIE_NAME of
        JStr sessionToken \<Rightarrow>
          let options = \<lparr> apiUrl = MOCHA_USERS_SERVICE_API_URL c,
                          apiKey = MOCHA_USERS_SERVICE_API_KEY c \<rparr> in
          (case getCurrentUser net sessionToken options of
             (Inl e, reqs, _) \<Rightarrow> (Inl e, reqs)
           | (Inr u, reqs, _) \<Rightarrow>
               if \<not> truthy u
               then (Inl (HTTPException 401 ''Invalid session token''), reqs)
               else (Inr (Next (c\<lparr> vars := (vars c)(''user'' \<mapsto> u) \<rparr>)), reqs))
      | _ \<Rightarrow> (Inr (Responded (JObj [(''error'', JStr ''Unauthorized'')]) 401), []))"

section \<open>Client Session Coordinator (React provider)\<close>

text \<open>
  The repository holds two variants of the provider. Both keep the user in React state
  and two refs, \<open>userRef\<close> and \<open>exchangeRef\<close>, holding the promise of the operation
  in flight. One variant exports \<open>fetchUser\<close>, tracks \<open>isPending\<close> and
  \<open>isFetching\<close>, and fetches the user in a mount effect; the other exports
  \<open>loadUser\<close> and has neither flag nor mount effect (one record serves both: the
  \<open>loadUser\<close> variant never writes the two flags). \<open>logout\<close>,
  \<open>redirectToLogin\<close> and \<open>exchangeCodeForSessionToken\<close> are the same text in both,
  except that the exchange refreshes the user through \<open>fetchUser\<close> in the one and
  \<open>loadUser\<close> in the other.

  The provider runs on one event loop. An async function runs until its \<open>await\<close>;
  what follows the \<open>await\<close> is a continuation that runs when the awaited promise
  settles. The model keeps
  \<^item> a table of promises, a promise being its index in the table;
  \<^item> for every request sent and not yet answered, the continuation awaiting it;
  \<^item> for every promise of a user fetch, the continuations awaiting it;
  \<^item> the log of effects, in the order the code performs them.
  A promise returned through an \<open>async\<close> wrapper is identified with the promise it
  adopts. \<open>await fetch(...)\<close> followed by \<open>await response.json()\<close> is one
  continuation: nothing of the provider changes between the two.
\<close>

datatype variant =
    FetchUserVariant   \<comment> \<open>the provider exporting \<open>fetchUser\<close>, \<open>isPending\<close>, \<open>isFetching\<close>\<close>
  | LoadUserVariant    \<comment> \<open>the provider exporting \<open>loadUser\<close>\<close>

datatype promise_state = Pending | Fulfilled | RejectedWith error

text \<open>What awaits the response to a request: the rest of the async function, with its promise.\<close>

datatype task =
    UserTask nat       \<comment> \<open>\<open>fetchUser\<close>, after \<open>await fetch('/api/users/me')\<close>\<close>
  | LoadTask nat       \<comment> \<open>\<open>loadUser\<close>, after \<open>await fetch('/api/users/me')\<close>\<close>
  | LogoutTask nat     \<comment> \<open>\<open>logout\<close>, after \<open>await fetch('/api/logout')\<close>\<close>
  | RedirectTask nat   \<comment> \<open>\<open>redirectToLogin\<close>, after its \<open>await fetch\<close>\<close>
  | ExchangeTask nat   \<comment> \<open>the exchange, after \<open>await fetch('/api/sessions', ...)\<close>\<close>

text \<open>What awaits the promise of a user fetch.\<close>

datatype waiter =
    ExchangeWaits nat  \<comment> \<open>the exchange, after \<open>await fetchUser()\<close> or \<open>await loadUser()\<close>\<close>
  | MountWaits         \<comment> \<open>the two callbacks of \<open>.then\<close> in the mount effect\<close>

datatype effect =
    SetUser jsval
  | SetIsPending bool
  | SetIsFetching bool
  | Fetch request
  | ConsoleError error
  | Navigate jsval     \<comment> \<open>\<open>window.location.href = redirectUrl\<close>\<close>

record provider =
  user :: jsval
  isPending :: bool
  isFetching :: bool
  userRef :: "nat option"
  exchangeRef :: "nat option"
  promises :: "promise_state list"
  awaiting :: "(nat \<times> task) list"
  waiters :: "(nat \<times> waiter) list"
  effects :: "effect list"
  location_search :: "(string \<times> string) list"   \<comment> \<open>the parameters of \<open>window.location.search\<close>\<close>

text \<open>The state of a freshly rendered provider, on a page with the given query parameters.\<close>

definition init :: "(string \<times> string) list \<Rightarrow> provider" where
  "init q = \<lparr> user = JNull, isPending = True, isFetching = False,
              userRef = None, exchangeRef = None,
              promises = [], awaiting = [], waiters = [], effects = [],
              location_search = q \<rparr>"

text \<open>The requests sent so far, in order; a request is named by its position here.\<close>

fun fetched :: "effect list \<Rightarrow> request list" where
  "fetched [] = []"
| "fetched (Fetch r # es) = r # fetched es"
| "fetched (e # es) = fetched es"

definition requests :: "provider \<Rightarrow> request list" where
  "requests s = fetched (effects s)"

definition setUser :: "jsval \<Rightarrow> provider \<Rightarrow> provider" where
  "setUser v s = s\<lparr> user := v, effects := effects s @ [SetUser v] \<rparr>"

definition setIsPending :: "bool \<Rightarrow> provider \<Rightarrow> provider" where
  "setIsPending b s = s\<lparr> isPending := b, effects := effects s @ [SetIsPending b] \<rparr>"

definition setIsFetching :: "bool \<Rightarrow> provider \<Rightarrow> provider" where
  "setIsFetching b s = s\<lparr> isFetching := b, effects := effects s @ [SetIsFetching b] \<rparr>"

definition console_error :: "error \<Rightarrow> provider \<Rightarrow> provider" where
  "console_error e s = s\<lparr> effects := effects s @ [ConsoleError e] \<rparr>"

definition navigate :: "jsval \<Rightarrow> provider \<Rightarrow> provider" where
  "navigate u s = s\<lparr> effects := effects s @ [Navigate u] \<rparr>"

text \<open>\<open>await fetch(req)\<close>: the request goes out and the continuation \<open>k\<close> waits for its answer.\<close>

definition fetch :: "request \<Rightarrow> task \<Rightarrow> provider \<Rightarrow> provider" where
  "fetch req k s =
     s\<lparr> effects := effects s @ [Fetch req],
        awaiting := awaiting s @ [(length (requests s), k)] \<rparr>"

definition new_promise :: "provider \<Rightarrow> nat \<times> provider" where
  "new_promise s = (length (promises s), s\<lparr> promises := promises s @ [Pending] \<rparr>)"

definition promise_state_of :: "provider \<Rightarrow> nat \<Rightarrow> promise_state" where
  "promise_state_of s p = (if p < length (promises s) then promises s ! p else Pending)"

definition settle :: "nat \<Rightarrow> promise_state \<Rightarrow> provider \<Rightarrow> provider" where
  "settle p st s = s\<lparr> promises := (promises s)[p := st] \<rparr>"

text \<open>
  The continuation of a waiter, given how the awaited promise settled. The exchange
  awaits inside \<open>try\<close>: a rejection goes to \<open>catch\<close>, which logs it, and the
  promise of the exchange is fulfilled either way. Both callbacks of the mount effect
  are \<open>() => setIsPending(false)\<close>.
\<close>

fun resume_waiter :: "promise_state \<Rightarrow> waiter \<Rightarrow> provider \<Rightarrow> provider" where
  "resume_waiter st MountWaits s = setIsPending False s"
| "resume_waiter (RejectedWith e) (ExchangeWaits pe) s = settle pe Fulfilled (console_error e s)"
| "resume_waiter st (ExchangeWaits pe) s = settle pe Fulfilled s"

text \<open>Settling the promise of a user fetch runs the continuations awaiting it, oldest first.\<close>

definition settle_and_notify :: "nat \<Rightarrow> promise_state \<Rightarrow> provider \<Rightarrow> provider" where
  "settle_and_notify p st s =
     fold (resume_waiter st) (map snd (filter (\<lambda>qw. fst qw = p) (waiters s)))
       ((settle p st s)\<lparr> waiters := filter (\<lambda>qw. fst qw \<noteq> p) (waiters s) \<rparr>)"

text \<open>Awaiting a promise: wait while it is pending, go on at once when it has settled.\<close>

definition await_on :: "nat \<Rightarrow> waiter \<Rightarrow> provider \<Rightarrow> provider" where
  "await_on q w s =
     (case promise_state_of s q of
        Pending \<Rightarrow> s\<lparr> waiters := waiters s @ [(q, w)] \<rparr>
      | st \<Rightarrow> resume_waiter st w s)"

subsection \<open>fetchUser and loadUser\<close>

definition current_user_request :: request where
  "current_user_request = \<lparr> http_method = ''GET'', url = ''/api/users/me'', headers = [], body = None \<rparr>"

text \<open>
  \<open>fetchUser\<close> returns the promise in \<open>userRef\<close> when there is one. Otherwise the
  inner async function starts: it sets \<open>isFetching\<close>, sends the request and suspends;
  its promise is then stored in \<open>userRef\<close> and returned.
\<close>

definition fetchUser :: "provider \<Rightarrow> nat \<times> provider" where
  "fetchUser s =
     (case userRef s of
        Some p \<Rightarrow> (p, s)
      | None \<Rightarrow>
          (case new_promise s of
             (p, s1) \<Rightarrow>
               (p, (fetch current_user_request (UserTask p) (setIsFetching True s1))
                     \<lparr> userRef := Some p \<rparr>)))"

text \<open>
  The \<open>finally\<close> block of \<open>fetchUser\<close>, then the settling of its promise:
  \<open>setIsFetching(false); userRef.current = null\<close>.
\<close>

definition fetchUser_finally :: "nat \<Rightarrow> promise_state \<Rightarrow> provider \<Rightarrow> provider" where
  "fetchUser_finally p st s = settle_and_notify p st ((setIsFetching False s)\<lparr> userRef := None \<rparr>)"

text \<open>
  \<open>fetchUser\<close> after the response: a rejected \<open>fetch\<close>, a response that is not
  \<open>ok\<close> and a body that does not parse are all rethrown by \<open>catch\<close>, so the promise
  is rejected and \<open>setUser\<close> is not reached; otherwise \<open>setUser(user)\<close>.
\<close>

definition fetchUser_resume :: "nat \<Rightarrow> fetch_result \<Rightarrow> provider \<Rightarrow> provider" where
  "fetchUser_resume p r s =
     (case r of
        Rejected e \<Rightarrow> fetchUser_finally p (RejectedWith e) s
      | Resolved resp \<Rightarrow>
          if \<not> ok resp
          then fetchUser_finally p
                 (RejectedWith (Error (''Failed to fetch user: API responded with HTTP status ''
                                       @ string_of_nat (status resp)))) s
          else (case json resp of
                  None \<Rightarrow> fetchUser_finally p (RejectedWith SyntaxError) s
                | Some v \<Rightarrow> fetchUser_finally p Fulfilled (setUser v s)))"

text \<open>\<open>loadUser\<close>: the same slot, no flag.\<close>

definition loadUser :: "provider \<Rightarrow> nat \<times> provider" where
  "loadUser s =
     (case userRef s of
        Some p \<Rightarrow> (p, s)
      | None \<Rightarrow>
          (case new_promise s of
             (p, s1) \<Rightarrow> (p, (fetch current_user_request (LoadTask p) s1)\<lparr> userRef := Some p \<rparr>)))"

text \<open>
  \<open>loadUser\<close> after the response: \<open>setUser(userData)\<close> on an \<open>ok\<close> response,
  \<open>setUser(null)\<close> otherwise; \<open>catch\<close> logs and calls \<open>setUser(null)\<close>. The promise
  is fulfilled in every case, and \<open>userRef\<close> is not written.
\<close>

definition loadUser_resume :: "nat \<Rightarrow> fetch_result \<Rightarrow> provider \<Rightarrow> provider" where
  "loadUser_resume p r s =
     settle_and_notify p Fulfilled
       (case r of
          Rejected e \<Rightarrow> setUser JNull (console_error e s)
        | Resolved resp \<Rightarrow>
            if ok resp
            then (case json resp of
                    None \<Rightarrow> setUser JNull (console_error SyntaxError s)
                  | Some v \<Rightarrow> setUser v s)
            else setUser JNull s)"

text \<open>The user fetch of a variant, as the exchange calls it.\<close>

fun refresh_user :: "variant \<Rightarrow> provider \<Rightarrow> nat \<times> provider" where
  "refresh_user FetchUserVariant s = fetchUser s"
| "refresh_user LoadUserVariant s = loadUser s"

subsection \<open>logout and redirectToLogin\<close>

definition logout_request :: request where
  "logout_request = \<lparr> http_method = ''GET'', url = ''/api/logout'', headers = [], body = None \<rparr>"

definition logout :: "provider \<Rightarrow> nat \<times> provider" where
  "logout s =
     (case new_promise s of
        (p, s1) \<Rightarrow> (p, fetch logout_request (LogoutTask p) (setUser JNull s1)))"

definition logout_resume :: "nat \<Rightarrow> fetch_result \<Rightarrow> provider \<Rightarrow> provider" where
  "logout_resume p r s =
     (case r of
        Rejected e \<Rightarrow> settle p Fulfilled (console_error e s)
      | Resolved resp \<Rightarrow> settle p Fulfilled s)"

definition login_redirect_request :: request where
  "login_redirect_request =
     \<lparr> http_method = ''GET'', url = ''/api/oauth/google/redirect_url'', headers = [], body = None \<rparr>"

definition redirectToLogin :: "provider \<Rightarrow> nat \<times> provider" where
  "redirectToLogin s =
     (case new_promise s of
        (p, s1) \<Rightarrow> (p, fetch login_redirect_request (RedirectTask p) s1))"

definition redirectToLogin_resume :: "nat \<Rightarrow> fetch_result \<Rightarrow> provider \<Rightarrow> provider" where
  "redirectToLogin_resume p r s =
     settle p Fulfilled
       (case r of
          Rejected e \<Rightarrow> console_error e s
        | Resolved resp \<Rightarrow>
            if \<not> ok resp
            then console_error
                   (Error (''Failed to get login redirect URL: API responded with HTTP status ''
                           @ string_of_nat (status resp))) s
            else (case json resp of
                    None \<Rightarrow> console_error SyntaxError s
                  | Some v \<Rightarrow>
                      (case destructure ''redirectUrl'' v of
                         Inl e \<Rightarrow> console_error e s
                       | Inr u \<Rightarrow> navigate u s)))"

subsection \<open>exchangeCodeForSessionToken\<close>

definition sessions_request :: "string \<Rightarrow> request" where
  "sessions_request code =
     \<lparr> http_method = ''POST'', url = ''/api/sessions'',
       headers = [(''Content-Type'', ''application/json'')],
       body = Some (JObj [(''code'', JStr code)]) \<rparr>"

definition no_code_error :: error where
  "no_code_error =
     Error ''Cannot exchange code for session token: no code provided in the URL search params.''"

text \<open>
  Not an async function: it returns the promise in \<open>exchangeRef\<close> when there is one,
  throws when \<open>urlParams.get('code')\<close> is \<open>null\<close> or empty, and otherwise starts the
  exchange and stores its promise. \<open>URLSearchParams.get\<close> yields the first value of
  the name.
\<close>

definition exchangeCodeForSessionToken :: "provider \<Rightarrow> (error + nat) \<times> provider" where
  "exchangeCodeForSessionToken s =
     (case exchangeRef s of
        Some p \<Rightarrow> (Inr p, s)
      | None \<Rightarrow>
          (case map_of (location_search s) ''code'' of
             None \<Rightarrow> (Inl no_code_error, s)
           | Some code \<Rightarrow>
               if code = [] then (Inl no_code_error, s)
               else (case new_promise s of
                       (p, s1) \<Rightarrow>
                         (Inr p, (fetch (sessions_request code) (ExchangeTask p) s1)
                                   \<lparr> exchangeRef := Some p \<rparr>))))"

text \<open>
  The exchange after the response. Everything thrown inside \<open>try\<close> is logged by
  \<open>catch\<close>; on an \<open>ok\<close> response the user is fetched again and awaited.
  \<open>exchangeRef\<close> is not written.
\<close>

definition exchange_resume :: "variant \<Rightarrow> nat \<Rightarrow> fetch_result \<Rightarrow> provider \<Rightarrow> provider" where
  "exchange_resume v p r s =
     (case r of
        Rejected e \<Rightarrow> settle p Fulfilled (console_error e s)
      | Resolved resp \<Rightarrow>
          if \<not> ok resp
          then settle p Fulfilled
                 (console_error
                    (Error (''Failed to exchange code for session token: API responded with HTTP status ''
                            @ string_of_nat (status resp))) s)
          else (case refresh_user v s of (q, s1) \<Rightarrow> await_on q (ExchangeWaits p) s1))"

subsection \<open>The mount effect and the event loop\<close>

text \<open>\<open>fetchUser().then(() => setIsPending(false), () => setIsPending(false))\<close>.\<close>

definition mount :: "provider \<Rightarrow> provider" where
  "mount s = (case fetchUser s of (q, s1) \<Rightarrow> await_on q MountWaits s1)"

text \<open>The response to request \<open>n\<close> arrives: the continuation awaiting it runs, once.\<close>

definition deliver :: "variant \<Rightarrow> nat \<Rightarrow> fetch_result \<Rightarrow> provider \<Rightarrow> provider" where
  "deliver v n r s =
     (case map_of (awaiting s) n of
        None \<Rightarrow> s
      | Some k \<Rightarrow>
          let s' = s\<lparr> awaiting := filter (\<lambda>mk. fst mk \<noteq> n) (awaiting s) \<rparr> in
          (case k of
             UserTask p \<Rightarrow> fetchUser_resume p r s'
           | LoadTask p \<Rightarrow> loadUser_resume p r s'
           | LogoutTask p \<Rightarrow> logout_resume p r s'
           | RedirectTask p \<Rightarrow> redirectToLogin_resume p r s'
           | ExchangeTask p \<Rightarrow> exchange_resume v p r s'))"

text \<open>
  What can happen to a provider: its mount effect runs, a consumer calls one of the
  exported actions, the network answers a request, or the router changes the query
  parameters of the page. \<open>CallFetchUser\<close> is \<open>fetchUser()\<close> in the one variant and
  \<open>loadUser()\<close> in the other, which has no mount effect.
\<close>

datatype event =
    Mount
  | CallFetchUser
  | CallLogout
  | CallRedirectToLogin
  | CallExchange
  | Respond nat fetch_result
  | SetLocation "(string \<times> string) list"

fun step :: "variant \<Rightarrow> event \<Rightarrow> provider \<Rightarrow> provider" where
  "step FetchUserVariant Mount s = mount s"
| "step LoadUserVariant Mount s = s"
| "step v CallFetchUser s = snd (refresh_user v s)"
| "step v CallLogout s = snd (logout s)"
| "step v CallRedirectToLogin s = snd (redirectToLogin s)"
| "step v CallExchange s = snd (exchangeCodeForSessionToken s)"
| "step v (Respond n r) s = deliver v n r s"
| "step v (SetLocation q) s = s\<lparr> location_search := q \<rparr>"

fun run :: "variant \<Rightarrow> event list \<Rightarrow> provider \<Rightarrow> provider" where
  "run v [] s = s"
| "run v (ev # evs) s = run v evs (step v ev s)"

section \<open>Measures and invariants of the coordinator\<close>

text \<open>The requests posted to \<open>/api/sessions\<close>.\<close>

definition exchange_requests :: "provider \<Rightarrow> request list" where
  "exchange_requests s = filter (\<lambda>r. url r = ''/api/sessions'') (requests s)"


text \<open>Every continuation awaits a request that has been sent.\<close>

definition awaiting_bounded :: "provider \<Rightarrow> bool" where
  "awaiting_bounded s = list_all (\<lambda>nk. fst nk < length (requests s)) (awaiting s)"

text \<open>The event is the answer to request \<open>n\<close>.\<close>

fun answers :: "nat \<Rightarrow> event \<Rightarrow> bool" where
  "answers n (Respond m r) = (m = n)"
| "answers n ev = False"

text \<open>The requests sent to \<open>/api/users/me\<close>.\<close>

definition user_requests :: "provider \<Rightarrow> request list" where
  "user_requests s = filter (\<lambda>r. url r = ''/api/users/me'') (requests s)"

text \<open>
  The promise of the exchange is pending or fulfilled, never rejected: it is a promise
  of the table, and no continuation of \<open>fetchUser\<close> (the only one that rejects its
  promise) owns it.
\<close>

fun task_promise :: "task \<Rightarrow> nat" where
  "task_promise (UserTask p) = p"
| "task_promise (LoadTask p) = p"
| "task_promise (LogoutTask p) = p"
| "task_promise (RedirectTask p) = p"
| "task_promise (ExchangeTask p) = p"

definition unrejected :: "provider \<Rightarrow> nat \<Rightarrow> bool" where
  "unrejected s p = (promise_state_of s p = Pending \<or> promise_state_of s p = Fulfilled)"


text \<open>
  The user fetch. In the provider with \<open>fetchUser\<close> there is at most one user fetch
  in flight. \<open>in_flight n q s\<close>: the fetch with promise \<open>q\<close> awaits the answer to
  request \<open>n\<close>; \<open>userRef\<close> holds \<open>q\<close>, which is pending; every other continuation
  belongs to a logout, a redirect or an exchange, with a promise of its own, and no
  exchange is waiting on \<open>q\<close> as its own promise.
\<close>

fun other_than :: "nat \<Rightarrow> task \<Rightarrow> bool" where
  "other_than q (LogoutTask p) = (p \<noteq> q)"
| "other_than q (RedirectTask p) = (p \<noteq> q)"
| "other_than q (ExchangeTask p) = (p \<noteq> q)"
| "other_than q k = False"

definition in_flight :: "nat \<Rightarrow> nat \<Rightarrow> provider \<Rightarrow> bool" where
  "in_flight n q s =
     (userRef s = Some q
      \<and> map_of (awaiting s) n = Some (UserTask q)
      \<and> promise_state_of s q = Pending \<and> q < length (promises s)
      \<and> list_all (\<lambda>nk. fst nk = n \<or> other_than q (snd nk)) (awaiting s)
      \<and> list_all (\<lambda>qw. snd qw \<noteq> ExchangeWaits q) (waiters s))"

text \<open>\<open>idle s\<close>: no user fetch is in flight.\<close>

fun plain_task :: "task \<Rightarrow> bool" where
  "plain_task (UserTask p) = False"
| "plain_task (LoadTask p) = False"
| "plain_task k = True"

definition idle :: "provider \<Rightarrow> bool" where
  "idle s = (userRef s = None \<and> list_all (\<lambda>nk. plain_task (snd nk)) (awaiting s))"

text \<open>
  The tables of the event loop name requests that were sent and promises that were
  created.
\<close>

fun waiter_below :: "nat \<Rightarrow> waiter \<Rightarrow> bool" where
  "waiter_below m (ExchangeWaits pe) = (pe < m)"
| "waiter_below m MountWaits = True"

definition tables_bounded :: "provider \<Rightarrow> bool" where
  "tables_bounded s =
     (awaiting_bounded s
      \<and> list_all (\<lambda>nk. task_promise (snd nk) < length (promises s)) (awaiting s)
      \<and> list_all (\<lambda>qw. waiter_below (length (promises s)) (snd qw)) (waiters s))"

text \<open>The invariant of the provider with \<open>fetchUser\<close>.\<close>

definition user_fetch_wf :: "provider \<Rightarrow> bool" where
  "user_fetch_wf s = (tables_bounded s \<and> (idle s \<or> (\<exists>n q. in_flight n q s)))"

text \<open>
  The state of a provider between the mount effect and the answer to the request of the
  fetch it awaits: that fetch (request \<open>n\<close>, promise \<open>q\<close>) is in flight, the mount
  effect awaits \<open>q\<close>, \<open>isPending\<close> is \<open>true\<close>, and the requests sent to
  \<open>/api/users/me\<close> are \<open>us\<close>.
\<close>

definition mount_waiting :: "nat \<Rightarrow> nat \<Rightarrow> request list \<Rightarrow> provider \<Rightarrow> bool" where
  "mount_waiting n q us s =
     (in_flight n q s \<and> isPending s \<and> (q, MountWaits) \<in> set (waiters s)
      \<and> user_requests s = us)"

section \<open>Sample inputs\<close>

definition sample_user :: jsval where
  "sample_user = JObj [(''id'', JStr ''u1''), (''email'', JStr ''ada@example.org'')]"

definition net_ok :: "jsval option \<Rightarrow> request \<Rightarrow> fetch_result" where
  "net_ok b req = Resolved \<lparr> ok = True, status = 200, statusText = ''OK'', json = b \<rparr>"

definition net_status :: "nat \<Rightarrow> string \<Rightarrow> request \<Rightarrow> fetch_result" where
  "net_status n txt req = Resolved \<lparr> ok = False, status = n, statusText = txt, json = None \<rparr>"

definition net_down :: "request \<Rightarrow> fetch_result" where
  "net_down req = Rejected (NetworkError ''fetch failed'')"

definition opts0 :: MochaUsersServiceOptions where
  "opts0 = \<lparr> apiUrl = None, apiKey = ''key'' \<rparr>"

definition opts1 :: MochaUsersServiceOptions where
  "opts1 = \<lparr> apiUrl = Some ''https://users.example.org/v1'', apiKey = ''k-123'' \<rparr>"

definition ctx0 :: "jsval \<Rightarrow> hono_ctx" where
  "ctx0 cookie =
     \<lparr> getCookie = (\<lambda>name. if name = ''mocha_session_token'' then cookie else JUndefined),
       MOCHA_USERS_SERVICE_API_URL = None,
       MOCHA_USERS_SERVICE_API_KEY = ''key'',
       vars = Map.empty \<rparr>"

definition okresp :: "jsval \<Rightarrow> fetch_result" where
  "okresp b = Resolved \<lparr> ok = True, status = 200, statusText = ''OK'', json = Some b \<rparr>"

definition unauthorized :: fetch_result where
  "unauthorized = Resolved \<lparr> ok = False, status = 401, statusText = ''Unauthorized'', json = None \<rparr>"

section \<open>Properties of the backend module\<close>



text \<open>
  C4. \<open>authMiddleware\<close> is a three-way gate. When \<open>getCookie\<close> yields no string, it
  responds with status 401 and the body \<open>{error: 'Unauthorized'}\<close> and sends no
  request. When the cookie is a string, it sends the one request of \<open>getCurrentUser\<close>;
  if that yields \<open>null\<close> (or any other falsy value) it throws an \<open>HTTPException\<close>
  with status 401; if it yields a user record, it reaches \<open>next()\<close> with the record
  stored under \<open>user\<close> in the context.
\<close>

theorem authMiddleware_gate:
  "((\<forall>tok. getCookie c MOCHA_SESSION_TOKEN_COOKIE_NAME \<noteq> JStr tok)
      \<longrightarrow> authMiddleware net c
            = (Inr (Responded (JObj [(''error'', JStr ''Unauthorized'')]) 401), []))
   \<and> (\<forall>tok u. getCookie c MOCHA_SESSION_TOKEN_COOKIE_NAME = JStr tok
          \<and> fst (getCurrentUser net tok
                    \<lparr> apiUrl = MOCHA_USERS_SERVICE_API_URL c,
                      apiKey = MOCHA_USERS_SERVICE_API_KEY c \<rparr>) = Inr u
        \<longrightarrow> snd (authMiddleware net c)
              = [users_me_request tok \<lparr> apiUrl = MOCHA_USERS_SERVICE_API_URL c,
                                         apiKey = MOCHA_USERS_SERVICE_API_KEY c \<rparr>]
            \<and> fst (authMiddleware net c)
              = (if truthy u then Inr (Next (c\<lparr> vars := (vars c)(''user'' \<mapsto> u) \<rparr>))
                 else Inl (HTTPException 401 ''Invalid session token'')))"
  by (auto simp: authMiddleware_def getCurrentUser_def split: jsval.splits sum.splits prod.splits)

theorem authMiddleware_gate_witness:
  "authMiddleware net_down (ctx0 JUndefined)
     = (Inr (Responded (JObj [(''error'', JStr ''Unauthorized'')]) 401), [])
   \<and> fst (authMiddleware net_down (ctx0 (JStr ''tok'')))
     = Inl (HTTPException 401 ''Invalid session token'')
   \<and> fst (authMiddleware (net_ok (Some (JObj [(''data'', sample_user)]))) (ctx0 (JStr ''tok'')))
     = Inr (Next ((ctx0 (JStr ''tok''))\<lparr> vars := [''user'' \<mapsto> sample_user] \<rparr>))"
  using authMiddleware_gate [of "ctx0 JUndefined" net_down]
        authMiddleware_gate [of "ctx0 (JStr ''tok'')" net_down]
        authMiddleware_gate
          [of "ctx0 (JStr ''tok'')" "net_ok (Some (JObj [(''data'', sample_user)]))"]
  by (simp add: ctx0_def MOCHA_SESSION_TOKEN_COOKIE_NAME_def getCurrentUser_def
        getCurrentUser_try_def net_down_def net_ok_def sample_user_def)

text \<open>
  C8. \<open>getOAuthRedirectUrl\<close> with a provider outside \<open>SUPPORTED_OAUTH_PROVIDERS\<close>
  fails having sent no request. With a supported provider it sends exactly one request,
  a GET to \<open>{base}/oauth/{provider}/redirect_url\<close> carrying the API key in the
  \<open>x-api-key\<close> header; it fails with an \<open>Error\<close> when the response is not \<open>ok\<close>,
  and returns the \<open>redirect_url\<close> field of the body when it is. The base is the
  configured \<open>apiUrl\<close> when there is one and it is not empty, and
  \<open>https://getmocha.com/u\<close> otherwise; the key in the header is the configured
  \<open>apiKey\<close>; the request has no body.
\<close>

theorem getOAuthRedirectUrl_contract:
  "(provider \<notin> set SUPPORTED_OAUTH_PROVIDERS
      \<longrightarrow> getOAuthRedirectUrl net provider options
            = (Inl (Error (''Unsupported OAuth provider: '' @ provider)), []))
   \<and> (provider \<in> set SUPPORTED_OAUTH_PROVIDERS
      \<longrightarrow> snd (getOAuthRedirectUrl net provider options) = [redirect_url_request provider options]
          \<and> http_method (redirect_url_request provider options) = ''GET''
          \<and> url (redirect_url_request provider options)
              = api_base options @ ''/oauth/'' @ provider @ ''/redirect_url''
          \<and> map_of (headers (redirect_url_request provider options)) ''x-api-key''
              = Some (apiKey options)
          \<and> (\<forall>r. net (redirect_url_request provider options) = Resolved r \<and> \<not> ok r
                \<longrightarrow> (\<exists>msg. fst (getOAuthRedirectUrl net provider options) = Inl (Error msg)))
          \<and> (\<forall>r kvs u. net (redirect_url_request provider options) = Resolved r \<and> ok r
                  \<and> json r = Some (JObj kvs) \<and> map_of kvs ''redirect_url'' = Some u
                \<longrightarrow> fst (getOAuthRedirectUrl net provider options) = Inr u))
   \<and> (provider \<in> set SUPPORTED_OAUTH_PROVIDERS
      \<longrightarrow> map http_method (snd (getOAuthRedirectUrl net provider options)) = [''GET'']
          \<and> map (\<lambda>req. map_of (headers req) ''x-api-key'')
                (snd (getOAuthRedirectUrl net provider options)) = [Some (apiKey options)]
          \<and> map body (snd (getOAuthRedirectUrl net provider options)) = [None]
          \<and> (\<forall>base. apiUrl options = Some base \<and> base \<noteq> []
                \<longrightarrow> map url (snd (getOAuthRedirectUrl net provider options))
                    = [base @ ''/oauth/'' @ provider @ ''/redirect_url''])
          \<and> (apiUrl options = None \<or> apiUrl options = Some []
                \<longrightarrow> map url (snd (getOAuthRedirectUrl net provider options))
                    = [''https://getmocha.com/u/oauth/'' @ provider @ ''/redirect_url'']))"
  by (auto simp: getOAuthRedirectUrl_def redirect_url_request_def Let_def api_base_def
           DEFAULT_MOCHA_USERS_SERVICE_API_URL_def
           split: fetch_result.splits option.splits)

theorem getOAuthRedirectUrl_contract_witness:
  "getOAuthRedirectUrl net_down ''github'' opts0
     = (Inl (Error ''Unsupported OAuth provider: github''), [])
   \<and> snd (getOAuthRedirectUrl (net_status 500 ''Internal Server Error'') ''google'' opts0)
     = [\<lparr> http_method = ''GET'', url = ''https://getmocha.com/u/oauth/google/redirect_url'',
          headers = [(''Content-Type'', ''application/json''), (''x-api-key'', ''key'')],
          body = None \<rparr>]
   \<and> fst (getOAuthRedirectUrl (net_status 500 ''Internal Server Error'') ''google'' opts0)
     = Inl (Error ''Failed to get redirect URL for provider google: Internal Server Error'')
   \<and> fst (getOAuthRedirectUrl
             (net_ok (Some (JObj [(''redirect_url'', JStr ''https://accounts.example/o'')])))
             ''google'' opts0)
     = Inr (JStr ''https://accounts.example/o'')
   \<and> apiUrl opts1 = Some ''https://users.example.org/v1''
   \<and> map url (snd (getOAuthRedirectUrl net_down ''google'' opts1))
     = [''https://users.example.org/v1/oauth/google/redirect_url'']
   \<and> map (\<lambda>req. map_of (headers req) ''x-api-key'')
         (snd (getOAuthRedirectUrl net_down ''google'' opts1)) = [Some ''k-123'']
   \<and> map url (snd (getOAuthRedirectUrl net_down ''google'' \<lparr> apiUrl = Some [], apiKey = ''k'' \<rparr>))
     = [''https://getmocha.com/u/oauth/google/redirect_url'']"
  using getOAuthRedirectUrl_contract [of "''github''" net_down opts0]
        getOAuthRedirectUrl_contract
          [of "''google''" "net_status 500 ''Internal Server Error''" opts0]
        getOAuthRedirectUrl_contract
          [of "''google''"
              "net_ok (Some (JObj [(''redirect_url'', JStr ''https://accounts.example/o'')]))"
              opts0]
        getOAuthRedirectUrl_contract [of "''google''" net_down opts1]
        getOAuthRedirectUrl_contract
          [of "''google''" net_down "\<lparr> apiUrl = Some [], apiKey = ''k'' \<rparr>"]
  by (simp add: SUPPORTED_OAUTH_PROVIDERS_def getOAuthRedirectUrl_def redirect_url_request_def
        api_base_def DEFAULT_MOCHA_USERS_SERVICE_API_URL_def opts0_def opts1_def
        net_status_def net_ok_def net_down_def)

section \<open>Lemmas on the coordinator\<close>

subsection \<open>What each primitive reads and writes\<close>

lemma fetched_append: "fetched (xs @ ys) = fetched xs @ fetched ys"
  by (induction xs rule: fetched.induct) simp_all

lemma requests_update [simp]:
  "requests (s\<lparr> user := a \<rparr>) = requests s"
  "requests (s\<lparr> isPending := b \<rparr>) = requests s"
  "requests (s\<lparr> isFetching := b \<rparr>) = requests s"
  "requests (s\<lparr> userRef := c \<rparr>) = requests s"
  "requests (s\<lparr> exchangeRef := c \<rparr>) = requests s"
  "requests (s\<lparr> promises := d \<rparr>) = requests s"
  "requests (s\<lparr> awaiting := e \<rparr>) = requests s"
  "requests (s\<lparr> waiters := f \<rparr>) = requests s"
  "requests (s\<lparr> location_search := g \<rparr>) = requests s"
  by (simp_all add: requests_def)

lemma requests_effect [simp]:
  "requests (setUser a s) = requests s"
  "requests (setIsPending b s) = requests s"
  "requests (setIsFetching b s) = requests s"
  "requests (console_error e s) = requests s"
  "requests (navigate u s) = requests s"
  "requests (settle p st s) = requests s"
  "requests (fetch req k s) = requests s @ [req]"
  by (simp_all add: requests_def fetched_append setUser_def setIsPending_def setIsFetching_def
        console_error_def navigate_def settle_def fetch_def)

lemma prim_fields [simp]:
  "user (setUser v s) = v"
  "isPending (setUser v s) = isPending s"
  "isFetching (setUser v s) = isFetching s"
  "userRef (setUser v s) = userRef s"
  "exchangeRef (setUser v s) = exchangeRef s"
  "promises (setUser v s) = promises s"
  "awaiting (setUser v s) = awaiting s"
  "waiters (setUser v s) = waiters s"
  "location_search (setUser v s) = location_search s"
  "user (setIsPending b s) = user s"
  "isPending (setIsPending b s) = b"
  "isFetching (setIsPending b s) = isFetching s"
  "userRef (setIsPending b s) = userRef s"
  "exchangeRef (setIsPending b s) = exchangeRef s"
  "promises (setIsPending b s) = promises s"
  "awaiting (setIsPending b s) = awaiting s"
  "waiters (setIsPending b s) = waiters s"
  "location_search (setIsPending b s) = location_search s"
  "user (setIsFetching b s) = user s"
  "isPending (setIsFetching b s) = isPending s"
  "isFetching (setIsFetching b s) = b"
  "userRef (setIsFetching b s) = userRef s"
  "exchangeRef (setIsFetching b s) = exchangeRef s"
  "promises (setIsFetching b s) = promises s"
  "awaiting (setIsFetching b s) = awaiting s"
  "waiters (setIsFetching b s) = waiters s"
  "location_search (setIsFetching b s) = location_search s"
  "user (console_error e s) = user s"
  "isPending (console_error e s) = isPending s"
  "isFetching (console_error e s) = isFetching s"
  "userRef (console_error e s) = userRef s"
  "exchangeRef (console_error e s) = exchangeRef s"
  "promises (console_error e s) = promises s"
  "awaiting (console_error e s) = awaiting s"
  "waiters (console_error e s) = waiters s"
  "location_search (console_error e s) = location_search s"
  "user (navigate u s) = user s"
  "isPending (navigate u s) = isPending s"
  "isFetching (navigate u s) = isFetching s"
  "userRef (navigate u s) = userRef s"
  "exchangeRef (navigate u s) = exchangeRef s"
  "promises (navigate u s) = promises s"
  "awaiting (navigate u s) = awaiting s"
  "waiters (navigate u s) = waiters s"
  "location_search (navigate u s) = location_search s"
  "user (settle p st s) = user s"
  "isPending (settle p st s) = isPending s"
  "isFetching (settle p st s) = isFetching s"
  "userRef (settle p st s) = userRef s"
  "exchangeRef (settle p st s) = exchangeRef s"
  "promises (settle p st s) = (promises s)[p := st]"
  "awaiting (settle p st s) = awaiting s"
  "waiters (settle p st s) = waiters s"
  "location_search (settle p st s) = location_search s"
  "user (fetch req k s) = user s"
  "isPending (fetch req k s) = isPending s"
  "isFetching (fetch req k s) = isFetching s"
  "userRef (fetch req k s) = userRef s"
  "exchangeRef (fetch req k s) = exchangeRef s"
  "promises (fetch req k s) = promises s"
  "awaiting (fetch req k s) = awaiting s @ [(length (requests s), k)]"
  "waiters (fetch req k s) = waiters s"
  "location_search (fetch req k s) = location_search s"
  by (simp_all add: setUser_def setIsPending_def setIsFetching_def console_error_def
        navigate_def settle_def fetch_def)

lemma promise_state_of_update [simp]:
  "promise_state_of (s\<lparr> user := a \<rparr>) = promise_state_of s"
  "promise_state_of (s\<lparr> isPending := b \<rparr>) = promise_state_of s"
  "promise_state_of (s\<lparr> isFetching := b \<rparr>) = promise_state_of s"
  "promise_state_of (s\<lparr> userRef := c \<rparr>) = promise_state_of s"
  "promise_state_of (s\<lparr> exchangeRef := c \<rparr>) = promise_state_of s"
  "promise_state_of (s\<lparr> awaiting := e \<rparr>) = promise_state_of s"
  "promise_state_of (s\<lparr> waiters := f \<rparr>) = promise_state_of s"
  "promise_state_of (s\<lparr> location_search := g \<rparr>) = promise_state_of s"
  "promise_state_of (s\<lparr> effects := es \<rparr>) = promise_state_of s"
  by (simp_all add: promise_state_of_def fun_eq_iff)

text \<open>What resuming waiters leaves alone.\<close>

lemma resume_waiter_frame:
  "user (resume_waiter st w s) = user s"
  "userRef (resume_waiter st w s) = userRef s"
  "exchangeRef (resume_waiter st w s) = exchangeRef s"
  "isFetching (resume_waiter st w s) = isFetching s"
  "awaiting (resume_waiter st w s) = awaiting s"
  "waiters (resume_waiter st w s) = waiters s"
  "location_search (resume_waiter st w s) = location_search s"
  "requests (resume_waiter st w s) = requests s"
  "length (promises (resume_waiter st w s)) = length (promises s)"
  by (cases "(st, w, s)" rule: resume_waiter.cases; simp)+

lemma fold_resume_waiter_frame:
  "user (fold (resume_waiter st) ws s) = user s"
  "userRef (fold (resume_waiter st) ws s) = userRef s"
  "exchangeRef (fold (resume_waiter st) ws s) = exchangeRef s"
  "isFetching (fold (resume_waiter st) ws s) = isFetching s"
  "awaiting (fold (resume_waiter st) ws s) = awaiting s"
  "waiters (fold (resume_waiter st) ws s) = waiters s"
  "location_search (fold (resume_waiter st) ws s) = location_search s"
  "requests (fold (resume_waiter st) ws s) = requests s"
  "length (promises (fold (resume_waiter st) ws s)) = length (promises s)"
  by (induction ws arbitrary: s; simp add: resume_waiter_frame)+

lemma settle_and_notify_frame:
  "user (settle_and_notify p st s) = user s"
  "userRef (settle_and_notify p st s) = userRef s"
  "exchangeRef (settle_and_notify p st s) = exchangeRef s"
  "isFetching (settle_and_notify p st s) = isFetching s"
  "awaiting (settle_and_notify p st s) = awaiting s"
  "location_search (settle_and_notify p st s) = location_search s"
  "requests (settle_and_notify p st s) = requests s"
  "length (promises (settle_and_notify p st s)) = length (promises s)"
  by (simp_all add: settle_and_notify_def fold_resume_waiter_frame)

lemma await_on_frame:
  "user (await_on q w s) = user s"
  "userRef (await_on q w s) = userRef s"
  "exchangeRef (await_on q w s) = exchangeRef s"
  "isFetching (await_on q w s) = isFetching s"
  "awaiting (await_on q w s) = awaiting s"
  "location_search (await_on q w s) = location_search s"
  "requests (await_on q w s) = requests s"
  "length (promises (await_on q w s)) = length (promises s)"
  by (simp_all add: await_on_def resume_waiter_frame split: promise_state.splits)

subsection \<open>The exchange slot and the exchange request\<close>

lemmas request_defs = current_user_request_def logout_request_def login_redirect_request_def
  sessions_request_def

text \<open>No action but the exchange writes \<open>exchangeRef\<close> or posts to \<open>/api/sessions\<close>.\<close>

lemma fetchUser_exchange:
  "exchangeRef (snd (fetchUser s)) = exchangeRef s"
  "exchange_requests (snd (fetchUser s)) = exchange_requests s"
  by (simp_all add: fetchUser_def exchange_requests_def new_promise_def
        request_defs split: option.splits)

lemma loadUser_exchange:
  "exchangeRef (snd (loadUser s)) = exchangeRef s"
  "exchange_requests (snd (loadUser s)) = exchange_requests s"
  by (simp_all add: loadUser_def exchange_requests_def new_promise_def
        request_defs split: option.splits)

lemma refresh_user_exchange:
  "exchangeRef (snd (refresh_user v s)) = exchangeRef s"
  "exchange_requests (snd (refresh_user v s)) = exchange_requests s"
  by (cases v; simp add: fetchUser_exchange loadUser_exchange)+

lemma logout_exchange:
  "exchangeRef (snd (logout s)) = exchangeRef s"
  "exchange_requests (snd (logout s)) = exchange_requests s"
  by (simp_all add: logout_def exchange_requests_def new_promise_def request_defs)

lemma redirectToLogin_exchange:
  "exchangeRef (snd (redirectToLogin s)) = exchangeRef s"
  "exchange_requests (snd (redirectToLogin s)) = exchange_requests s"
  by (simp_all add: redirectToLogin_def exchange_requests_def new_promise_def request_defs)

lemma mount_exchange:
  "exchangeRef (mount s) = exchangeRef s"
  "exchange_requests (mount s) = exchange_requests s"
  using fetchUser_exchange [of s]
  by (auto simp: mount_def await_on_frame exchange_requests_def split: prod.splits)

lemma fetchUser_resume_exchange:
  "exchangeRef (fetchUser_resume p r s) = exchangeRef s"
  "exchange_requests (fetchUser_resume p r s) = exchange_requests s"
  by (simp_all add: fetchUser_resume_def fetchUser_finally_def settle_and_notify_frame
        exchange_requests_def
        split: fetch_result.splits option.splits)

lemma loadUser_resume_exchange:
  "exchangeRef (loadUser_resume p r s) = exchangeRef s"
  "exchange_requests (loadUser_resume p r s) = exchange_requests s"
  by (simp_all add: loadUser_resume_def settle_and_notify_frame
        exchange_requests_def
        split: fetch_result.splits option.splits)

lemma logout_resume_exchange:
  "exchangeRef (logout_resume p r s) = exchangeRef s"
  "exchange_requests (logout_resume p r s) = exchange_requests s"
  by (simp_all add: logout_resume_def exchange_requests_def
        split: fetch_result.splits)

lemma redirectToLogin_resume_exchange:
  "exchangeRef (redirectToLogin_resume p r s) = exchangeRef s"
  "exchange_requests (redirectToLogin_resume p r s) = exchange_requests s"
  by (simp_all add: redirectToLogin_resume_def exchange_requests_def
        split: fetch_result.splits option.splits sum.splits)

lemma exchange_resume_exchange:
  "exchangeRef (exchange_resume v p r s) = exchangeRef s"
  "exchange_requests (exchange_resume v p r s) = exchange_requests s"
  using refresh_user_exchange [of v s]
  by (auto simp: exchange_resume_def exchange_requests_def await_on_frame
        split: fetch_result.splits prod.splits)

lemma exchange_requests_update [simp]:
  "exchange_requests (s\<lparr> awaiting := a \<rparr>) = exchange_requests s"
  "exchange_requests (s\<lparr> location_search := q \<rparr>) = exchange_requests s"
  by (simp_all add: exchange_requests_def)

lemma deliver_exchange:
  "exchangeRef (deliver v n r s) = exchangeRef s"
  "exchange_requests (deliver v n r s) = exchange_requests s"
  by (simp_all add: deliver_def Let_def fetchUser_resume_exchange loadUser_resume_exchange
        logout_resume_exchange redirectToLogin_resume_exchange exchange_resume_exchange
        split: option.splits task.splits)

lemma step_exchangeRef: "exchangeRef s = Some p \<Longrightarrow> exchangeRef (step v ev s) = Some p"
  by (cases "(v, ev, s)" rule: step.cases)
     (simp_all add: mount_exchange refresh_user_exchange logout_exchange redirectToLogin_exchange
        deliver_exchange exchangeCodeForSessionToken_def)

lemma run_exchangeRef: "exchangeRef s = Some p \<Longrightarrow> exchangeRef (run v evs s) = Some p"
  by (induction evs arbitrary: s) (simp_all add: step_exchangeRef)





subsection \<open>The user fetch\<close>

text \<open>
  Single flight, in both variants: a call while \<open>userRef\<close> holds a promise returns
  that promise and changes nothing; a call on an empty slot starts a fetch with one
  request. \<open>fetchUser\<close> empties the slot when its request is answered;
  \<open>loadUser\<close> does not.
\<close>

lemma fetchUser_in_flight: "userRef s = Some p \<Longrightarrow> fetchUser s = (p, s)"
  by (simp add: fetchUser_def)

lemma loadUser_in_flight: "userRef s = Some p \<Longrightarrow> loadUser s = (p, s)"
  by (simp add: loadUser_def)

lemma fetchUser_fresh:
  "userRef s = None \<Longrightarrow>
     fst (fetchUser s) = length (promises s)
     \<and> requests (snd (fetchUser s)) = requests s @ [current_user_request]
     \<and> userRef (snd (fetchUser s)) = Some (length (promises s))
     \<and> isFetching (snd (fetchUser s))
     \<and> promise_state_of (snd (fetchUser s)) (length (promises s)) = Pending"
  by (simp add: fetchUser_def new_promise_def promise_state_of_def)

lemma loadUser_fresh:
  "userRef s = None \<Longrightarrow>
     fst (loadUser s) = length (promises s)
     \<and> requests (snd (loadUser s)) = requests s @ [current_user_request]
     \<and> userRef (snd (loadUser s)) = Some (length (promises s))"
  by (simp add: loadUser_def new_promise_def)

lemma fetchUser_resume_clears_slot:
  "userRef (fetchUser_resume p r s) = None \<and> \<not> isFetching (fetchUser_resume p r s)"
  by (simp add: fetchUser_resume_def fetchUser_finally_def settle_and_notify_frame
        split: fetch_result.splits option.splits)

lemma loadUser_resume_keeps_slot: "userRef (loadUser_resume p r s) = userRef s"
  by (simp add: loadUser_resume_def settle_and_notify_frame
        split: fetch_result.splits option.splits)

text \<open>What the user fetch stores.\<close>

lemma fetchUser_resume_user:
  "user (fetchUser_resume p r s)
     = (case r of
          Rejected e \<Rightarrow> user s
        | Resolved resp \<Rightarrow>
            (case json resp of None \<Rightarrow> user s | Some v \<Rightarrow> if ok resp then v else user s))"
  by (simp add: fetchUser_resume_def fetchUser_finally_def settle_and_notify_frame
        split: fetch_result.splits option.splits)

lemma loadUser_resume_user:
  "user (loadUser_resume p r s)
     = (case r of
          Rejected e \<Rightarrow> JNull
        | Resolved resp \<Rightarrow>
            (case json resp of None \<Rightarrow> JNull | Some v \<Rightarrow> if ok resp then v else JNull))"
  by (simp add: loadUser_resume_def settle_and_notify_frame
        split: fetch_result.splits option.splits)

text \<open>
  \<open>fetchUser\<close>, from call to call: when the answer to its request arrives, the slot
  is emptied and \<open>isFetching\<close> is \<open>false\<close>, whatever the answer; the next call
  then starts a new fetch, with a new promise and a new request.
\<close>

lemma fetchUser_fresh_after_answer:
  assumes "map_of (awaiting s) n = Some (UserTask p)"
  shows "userRef (deliver v n r s) = None"
    and "\<not> isFetching (deliver v n r s)"
    and "requests (deliver v n r s) = requests s"
    and "fst (fetchUser (deliver v n r s)) = length (promises s)"
    and "requests (snd (fetchUser (deliver v n r s))) = requests s @ [current_user_request]"
proof -
  let ?s' = "s\<lparr> awaiting := filter (\<lambda>mk. fst mk \<noteq> n) (awaiting s) \<rparr>"
  have d: "deliver v n r s = fetchUser_resume p r ?s'"
    using assms by (simp add: deliver_def Let_def)
  show slot: "userRef (deliver v n r s) = None" and "\<not> isFetching (deliver v n r s)"
    by (simp_all add: d fetchUser_resume_clears_slot)
  show req: "requests (deliver v n r s) = requests s"
    by (simp add: d fetchUser_resume_def fetchUser_finally_def settle_and_notify_frame
          split: fetch_result.splits option.splits)
  have len: "length (promises (deliver v n r s)) = length (promises s)"
    by (simp add: d fetchUser_resume_def fetchUser_finally_def settle_and_notify_frame
          split: fetch_result.splits option.splits)
  show "fst (fetchUser (deliver v n r s)) = length (promises s)"
    and "requests (snd (fetchUser (deliver v n r s))) = requests s @ [current_user_request]"
    using fetchUser_fresh [OF slot] by (simp_all add: len req)
qed

text \<open>\<open>loadUser\<close>: the answer leaves the slot as it is, so the next call joins the settled promise.\<close>

lemma loadUser_stale_after_answer:
  assumes "map_of (awaiting s) n = Some (LoadTask p)" and "userRef s = Some p"
  shows "loadUser (deliver v n r s) = (p, deliver v n r s)"
  using assms
  by (simp add: deliver_def Let_def loadUser_in_flight loadUser_resume_keeps_slot)

subsection \<open>Continuations await requests that were sent\<close>

lemma effects_effect [simp]:
  "effects (setUser a s) = effects s @ [SetUser a]"
  "effects (setIsPending b s) = effects s @ [SetIsPending b]"
  "effects (setIsFetching b s) = effects s @ [SetIsFetching b]"
  "effects (console_error e s) = effects s @ [ConsoleError e]"
  "effects (navigate u s) = effects s @ [Navigate u]"
  "effects (settle p st s) = effects s"
  "effects (fetch req k s) = effects s @ [Fetch req]"
  by (simp_all add: setUser_def setIsPending_def setIsFetching_def
        console_error_def navigate_def settle_def fetch_def)

lemma awaiting_bounded_iff:
  "awaiting_bounded s \<longleftrightarrow> (\<forall>nk \<in> set (awaiting s). fst nk < length (requests s))"
  by (simp add: awaiting_bounded_def list_all_iff)

lemma refresh_user_bounded: "awaiting_bounded s \<Longrightarrow> awaiting_bounded (snd (refresh_user v s))"
  by (cases v)
     (auto simp: awaiting_bounded_iff fetchUser_def loadUser_def new_promise_def
           split: option.splits)

lemma logout_bounded: "awaiting_bounded s \<Longrightarrow> awaiting_bounded (snd (logout s))"
  by (auto simp: awaiting_bounded_iff logout_def new_promise_def)

lemma redirectToLogin_bounded: "awaiting_bounded s \<Longrightarrow> awaiting_bounded (snd (redirectToLogin s))"
  by (auto simp: awaiting_bounded_iff redirectToLogin_def new_promise_def)

lemma exchange_bounded:
  "awaiting_bounded s \<Longrightarrow> awaiting_bounded (snd (exchangeCodeForSessionToken s))"
  by (auto simp: awaiting_bounded_iff exchangeCodeForSessionToken_def new_promise_def
           split: option.splits)

lemma mount_bounded: "awaiting_bounded s \<Longrightarrow> awaiting_bounded (mount s)"
  using refresh_user_bounded [of s FetchUserVariant]
  by (cases "fetchUser s") (simp add: awaiting_bounded_def mount_def await_on_frame)

lemma deliver_bounded: "awaiting_bounded s \<Longrightarrow> awaiting_bounded (deliver v n r s)"
proof -
  assume b: "awaiting_bounded s"
  let ?s' = "s\<lparr> awaiting := filter (\<lambda>mk. fst mk \<noteq> n) (awaiting s) \<rparr>"
  have b': "awaiting_bounded ?s'"
    using b by (auto simp: awaiting_bounded_iff)
  have ex: "awaiting_bounded (exchange_resume v p r ?s')" for p
    using refresh_user_bounded [OF b', of v] b'
    by (cases "refresh_user v ?s'")
       (simp add: awaiting_bounded_def exchange_resume_def await_on_frame
             split: fetch_result.splits)
  have others:
    "awaiting_bounded (fetchUser_resume p r ?s')"
    "awaiting_bounded (loadUser_resume p r ?s')"
    "awaiting_bounded (logout_resume p r ?s')"
    "awaiting_bounded (redirectToLogin_resume p r ?s')" for p
    using b'
    by (simp_all add: awaiting_bounded_def fetchUser_resume_def fetchUser_finally_def
          loadUser_resume_def logout_resume_def redirectToLogin_resume_def
          settle_and_notify_frame
          split: fetch_result.splits option.splits sum.splits)
  show ?thesis
    using b ex others by (simp add: deliver_def Let_def split: option.splits task.splits)
qed

lemma step_bounded: "awaiting_bounded s \<Longrightarrow> awaiting_bounded (step v ev s)"
  by (cases "(v, ev, s)" rule: step.cases)
     (simp_all add: mount_bounded refresh_user_bounded logout_bounded redirectToLogin_bounded
        exchange_bounded deliver_bounded, simp add: awaiting_bounded_def)

lemma run_bounded: "awaiting_bounded s \<Longrightarrow> awaiting_bounded (run v evs s)"
  by (induction evs arbitrary: s) (simp_all add: step_bounded)

lemma init_bounded: "awaiting_bounded (init q)"
  by (simp add: awaiting_bounded_def init_def)

lemma map_of_fresh_key:
  "\<forall>nk \<in> set xs. fst nk \<noteq> n \<Longrightarrow> map_of (xs @ [(n, k)]) n = Some k"
  by (induction xs) auto

subsection \<open>logout, and who writes the user\<close>

lemma logout_effects:
  "user (snd (logout s)) = JNull"
  "effects (snd (logout s)) = effects s @ [SetUser JNull, Fetch logout_request]"
  "fst (logout s) = length (promises s)"
  "awaiting (snd (logout s)) = awaiting s @ [(length (requests s), LogoutTask (length (promises s)))]"
  "promises (snd (logout s)) = promises s @ [Pending]"
  by (simp_all add: logout_def new_promise_def)

lemma deliver_logout:
  assumes "map_of (awaiting s) n = Some (LogoutTask p)"
  shows "user (deliver v n r s) = user s"
    and "userRef (deliver v n r s) = userRef s"
    and "p < length (promises s) \<Longrightarrow> promise_state_of (deliver v n r s) p = Fulfilled"
  using assms
  by (simp_all add: deliver_def Let_def logout_resume_def promise_state_of_def
        split: fetch_result.splits)

lemma refresh_user_user: "user (snd (refresh_user v s)) = user s"
  by (cases v) (simp_all add: fetchUser_def loadUser_def new_promise_def split: option.splits)

lemma user_unwritten:
  "user (logout_resume p r s) = user s"
  "user (redirectToLogin_resume p r s) = user s"
  "user (exchange_resume v p r s) = user s"
  "user (snd (redirectToLogin s)) = user s"
  "user (snd (exchangeCodeForSessionToken s)) = user s"
  "user (mount s) = user s"
proof -
  show "user (logout_resume p r s) = user s"
    by (simp add: logout_resume_def split: fetch_result.splits)
  show "user (redirectToLogin_resume p r s) = user s"
    by (simp add: redirectToLogin_resume_def split: fetch_result.splits option.splits sum.splits)
  show "user (exchange_resume v p r s) = user s"
    using refresh_user_user [of v s]
    by (cases "refresh_user v s")
       (simp add: exchange_resume_def await_on_frame split: fetch_result.splits)
  show "user (snd (redirectToLogin s)) = user s"
    by (simp add: redirectToLogin_def new_promise_def)
  show "user (snd (exchangeCodeForSessionToken s)) = user s"
    by (simp add: exchangeCodeForSessionToken_def new_promise_def split: option.splits)
  show "user (mount s) = user s"
    using refresh_user_user [of FetchUserVariant s]
    by (cases "fetchUser s") (simp add: mount_def await_on_frame)
qed

text \<open>Only an \<open>ok\<close> response with a JSON body to a user fetch stores a user.\<close>

lemma deliver_user_written:
  assumes "user (deliver v n r s) \<noteq> user s" and "user (deliver v n r s) \<noteq> JNull"
  shows "\<exists>resp p. r = Resolved resp \<and> ok resp \<and> json resp = Some (user (deliver v n r s))
           \<and> (map_of (awaiting s) n = Some (UserTask p) \<or> map_of (awaiting s) n = Some (LoadTask p))"
proof (cases "map_of (awaiting s) n")
  case None
  with assms show ?thesis by (simp add: deliver_def)
next
  case (Some k)
  show ?thesis
  proof (cases k)
    case (UserTask p)
    with Some assms show ?thesis
      by (auto simp: deliver_def Let_def fetchUser_resume_user
               split: fetch_result.splits option.splits if_splits)
  next
    case (LoadTask p)
    with Some assms show ?thesis
      by (auto simp: deliver_def Let_def loadUser_resume_user
               split: fetch_result.splits option.splits if_splits)
  qed (use Some assms in \<open>simp_all add: deliver_def Let_def user_unwritten\<close>)
qed

lemma step_user_written:
  assumes "user (step v ev s) \<noteq> user s" and "user (step v ev s) \<noteq> JNull"
  shows "\<exists>n resp p. ev = Respond n (Resolved resp) \<and> ok resp
           \<and> json resp = Some (user (step v ev s))
           \<and> (map_of (awaiting s) n = Some (UserTask p) \<or> map_of (awaiting s) n = Some (LoadTask p))"
proof (cases ev)
  case (Respond n r)
  with assms deliver_user_written [of v n r s] show ?thesis by auto
next
  case Mount
  with assms show ?thesis by (cases v) (simp_all add: user_unwritten)
qed (use assms in \<open>simp_all add: user_unwritten refresh_user_user logout_effects\<close>)

lemma logout_sample:
  "map_of (awaiting (snd (logout (init [])))) 0 = Some (LogoutTask 0)
   \<and> 0 < length (promises (snd (logout (init []))))
   \<and> user (step FetchUserVariant (Respond 0 (okresp sample_user)) (snd (fetchUser (init []))))
       \<noteq> user (snd (fetchUser (init [])))
   \<and> user (step FetchUserVariant (Respond 0 (okresp sample_user)) (snd (fetchUser (init []))))
       \<noteq> JNull"
  by code_simp

subsection \<open>The pending flag and the mount effect\<close>

lemma resume_waiter_isPending:
  "isPending (resume_waiter st w s) = (isPending s \<and> w \<noteq> MountWaits)"
  by (cases "(st, w, s)" rule: resume_waiter.cases) simp_all

lemma fold_resume_waiter_isPending:
  "isPending (fold (resume_waiter st) ws s) = (isPending s \<and> MountWaits \<notin> set ws)"
  by (induction ws arbitrary: s) (auto simp: resume_waiter_isPending)

lemma settle_and_notify_isPending:
  "isPending (settle_and_notify p st s) = (isPending s \<and> (p, MountWaits) \<notin> set (waiters s))"
  by (force simp: settle_and_notify_def fold_resume_waiter_isPending)

lemma await_on_isPending:
  "isPending (await_on q w s)
     = (isPending s \<and> (promise_state_of s q = Pending \<or> w \<noteq> MountWaits))"
  by (auto simp: await_on_def resume_waiter_isPending split: promise_state.splits)

lemma refresh_user_isPending: "isPending (snd (refresh_user v s)) = isPending s"
  by (cases v) (simp_all add: fetchUser_def loadUser_def new_promise_def split: option.splits)

text \<open>Nothing sets \<open>isPending\<close> back to \<open>true\<close>.\<close>

lemma deliver_isPending_mono: "\<not> isPending s \<Longrightarrow> \<not> isPending (deliver v n r s)"
proof -
  assume np: "\<not> isPending s"
  let ?s' = "s\<lparr> awaiting := filter (\<lambda>mk. fst mk \<noteq> n) (awaiting s) \<rparr>"
  have "\<not> isPending (exchange_resume v p r ?s')" for p
    using np refresh_user_isPending [of v ?s']
    by (cases "refresh_user v ?s'")
       (simp add: exchange_resume_def await_on_isPending split: fetch_result.splits)
  moreover have
    "\<not> isPending (fetchUser_resume p r ?s')"
    "\<not> isPending (loadUser_resume p r ?s')"
    "\<not> isPending (logout_resume p r ?s')"
    "\<not> isPending (redirectToLogin_resume p r ?s')" for p
    using np
    by (simp_all add: fetchUser_resume_def fetchUser_finally_def loadUser_resume_def
          logout_resume_def redirectToLogin_resume_def settle_and_notify_isPending
          split: fetch_result.splits option.splits sum.splits)
  ultimately show ?thesis
    using np by (simp add: deliver_def Let_def split: option.splits task.splits)
qed

lemma step_isPending_mono: "\<not> isPending s \<Longrightarrow> \<not> isPending (step v ev s)"
proof (cases ev)
  case Mount
  assume "\<not> isPending s"
  with Mount refresh_user_isPending [of FetchUserVariant s] show ?thesis
    by (cases v; cases "fetchUser s") (simp_all add: mount_def await_on_isPending)
next
  case (Respond n r)
  assume "\<not> isPending s"
  with Respond show ?thesis by (simp add: deliver_isPending_mono)
qed (simp_all add: refresh_user_isPending logout_def redirectToLogin_def new_promise_def
       exchangeCodeForSessionToken_def split: option.splits)

text \<open>The answer to a user fetch that the mount effect awaits clears \<open>isPending\<close>.\<close>

lemma deliver_clears_isPending:
  assumes "map_of (awaiting s) n = Some (UserTask p)" and "(p, MountWaits) \<in> set (waiters s)"
  shows "\<not> isPending (deliver v n r s)"
  using assms
  by (simp add: deliver_def Let_def fetchUser_resume_def fetchUser_finally_def
        settle_and_notify_isPending split: fetch_result.splits option.splits)

lemma user_requests_update [simp]:
  "user_requests (s\<lparr> awaiting := a \<rparr>) = user_requests s"
  "user_requests (s\<lparr> waiters := w \<rparr>) = user_requests s"
  "user_requests (s\<lparr> location_search := q \<rparr>) = user_requests s"
  "user_requests (s\<lparr> promises := ps \<rparr>) = user_requests s"
  "user_requests (s\<lparr> exchangeRef := e \<rparr>) = user_requests s"
  "user_requests (s\<lparr> userRef := u \<rparr>) = user_requests s"
  by (simp_all add: user_requests_def)

lemma user_requests_effect [simp]:
  "user_requests (setUser a s) = user_requests s"
  "user_requests (setIsPending b s) = user_requests s"
  "user_requests (setIsFetching b s) = user_requests s"
  "user_requests (console_error e s) = user_requests s"
  "user_requests (navigate u s) = user_requests s"
  "user_requests (settle p st s) = user_requests s"
  "user_requests (fetch req k s)
     = user_requests s @ (if url req = ''/api/users/me'' then [req] else [])"
  by (simp_all add: user_requests_def)

lemma promise_state_of_effect [simp]:
  "promise_state_of (setUser a s) = promise_state_of s"
  "promise_state_of (setIsPending b s) = promise_state_of s"
  "promise_state_of (setIsFetching b s) = promise_state_of s"
  "promise_state_of (console_error e s) = promise_state_of s"
  "promise_state_of (navigate u s) = promise_state_of s"
  "promise_state_of (fetch req k s) = promise_state_of s"
  by (simp_all add: promise_state_of_def fun_eq_iff)

lemma promise_state_of_settle:
  "promise_state_of (settle p st s) q
     = (if q = p \<and> p < length (promises s) then st else promise_state_of s q)"
  by (simp add: promise_state_of_def settle_def)

lemma promise_state_of_new:
  "promise_state_of (s\<lparr> promises := promises s @ [Pending] \<rparr>) q = promise_state_of s q"
  by (simp add: promise_state_of_def nth_append)

lemma map_of_filter_other:
  "n \<noteq> m \<Longrightarrow> map_of (filter (\<lambda>mk. fst mk \<noteq> n) xs) m = map_of xs m"
  by (induction xs) auto

lemma map_of_append_Some: "map_of xs k = Some v \<Longrightarrow> map_of (xs @ ys) k = Some v"
  by (induction xs) auto

lemma mount_requests:
  "userRef s = None \<Longrightarrow> requests (mount s) = requests s @ [current_user_request]"
  "userRef s = Some p \<Longrightarrow> requests (mount s) = requests s"
  by (simp_all add: mount_def fetchUser_def new_promise_def await_on_frame)

subsection \<open>The outcome of the exchange\<close>










lemma unrejected_update [simp]:
  "unrejected (s\<lparr> user := a \<rparr>) = unrejected s"
  "unrejected (s\<lparr> isPending := b \<rparr>) = unrejected s"
  "unrejected (s\<lparr> isFetching := b \<rparr>) = unrejected s"
  "unrejected (s\<lparr> userRef := c \<rparr>) = unrejected s"
  "unrejected (s\<lparr> exchangeRef := c \<rparr>) = unrejected s"
  "unrejected (s\<lparr> awaiting := aw \<rparr>) = unrejected s"
  "unrejected (s\<lparr> waiters := f \<rparr>) = unrejected s"
  "unrejected (s\<lparr> location_search := g \<rparr>) = unrejected s"
  "unrejected (s\<lparr> effects := es \<rparr>) = unrejected s"
  "unrejected (setUser a s) = unrejected s"
  "unrejected (setIsPending b s) = unrejected s"
  "unrejected (setIsFetching b s) = unrejected s"
  "unrejected (console_error e s) = unrejected s"
  "unrejected (navigate u s) = unrejected s"
  "unrejected (fetch req k s) = unrejected s"
  by (simp_all add: unrejected_def fun_eq_iff)



















subsection \<open>The mount effect in any state the provider can reach\<close>

text \<open>A user fetch in flight stays in flight until the answer to its request.\<close>

lemma in_flight_call:
  assumes "in_flight n q s"
  shows "in_flight n q (mount s)"
    and "in_flight n q (snd (fetchUser s))"
    and "in_flight n q (snd (logout s))"
    and "in_flight n q (snd (redirectToLogin s))"
    and "in_flight n q (snd (exchangeCodeForSessionToken s))"
    and "in_flight n q (s\<lparr> location_search := x \<rparr>)"
  using assms
  by (auto simp: in_flight_def mount_def fetchUser_def await_on_def logout_def
        redirectToLogin_def exchangeCodeForSessionToken_def new_promise_def
        promise_state_of_new map_of_append_Some
        split: option.splits)

lemma in_flight_deliver:
  assumes inv: "in_flight n q s" and m: "m \<noteq> n"
  shows "in_flight n q (deliver FetchUserVariant m r s)"
proof (cases "map_of (awaiting s) m")
  case None
  with inv show ?thesis by (simp add: deliver_def)
next
  case (Some k)
  let ?s' = "s\<lparr> awaiting := filter (\<lambda>mk. fst mk \<noteq> m) (awaiting s) \<rparr>"
  from Some have "(m, k) \<in> set (awaiting s)"
    by (rule map_of_SomeD)
  with inv m have other: "other_than q k"
    by (auto simp: in_flight_def list_all_iff)
  have inv': "in_flight n q ?s'"
    using inv m by (auto simp: in_flight_def map_of_filter_other list_all_iff)
  show ?thesis
  proof (cases k)
    case (LogoutTask p)
    with other inv' Some show ?thesis
      by (auto simp: deliver_def Let_def logout_resume_def in_flight_def
            promise_state_of_settle split: fetch_result.splits)
  next
    case (RedirectTask p)
    with other inv' Some show ?thesis
      by (auto simp: deliver_def Let_def redirectToLogin_resume_def in_flight_def
            promise_state_of_settle split: fetch_result.splits option.splits sum.splits)
  next
    case (ExchangeTask p)
    with other inv' Some show ?thesis
      by (auto simp: deliver_def Let_def exchange_resume_def in_flight_def
            promise_state_of_settle fetchUser_def await_on_def
            split: fetch_result.splits)
  qed (use other in simp_all)
qed

lemma in_flight_step:
  assumes "in_flight n q s" and "\<not> answers n ev"
  shows "in_flight n q (step FetchUserVariant ev s)"
  using assms
  by (cases ev) (simp_all add: in_flight_call in_flight_deliver)

lemma mount_waiting_call:
  assumes "mount_waiting n q us s"
  shows "mount_waiting n q us (mount s)"
    and "mount_waiting n q us (snd (fetchUser s))"
    and "mount_waiting n q us (snd (logout s))"
    and "mount_waiting n q us (snd (redirectToLogin s))"
    and "mount_waiting n q us (snd (exchangeCodeForSessionToken s))"
    and "mount_waiting n q us (s\<lparr> location_search := x \<rparr>)"
  using assms
  by (auto simp: mount_waiting_def in_flight_def mount_def fetchUser_def await_on_def logout_def
        redirectToLogin_def exchangeCodeForSessionToken_def new_promise_def
        promise_state_of_new map_of_append_Some
        logout_request_def login_redirect_request_def sessions_request_def
        split: option.splits)

lemma mount_waiting_deliver:
  assumes inv: "mount_waiting n q us s" and m: "m \<noteq> n"
  shows "mount_waiting n q us (deliver FetchUserVariant m r s)"
proof (cases "map_of (awaiting s) m")
  case None
  with inv show ?thesis by (simp add: deliver_def)
next
  case (Some k)
  let ?s' = "s\<lparr> awaiting := filter (\<lambda>mk. fst mk \<noteq> m) (awaiting s) \<rparr>"
  from Some have "(m, k) \<in> set (awaiting s)"
    by (rule map_of_SomeD)
  with inv m have other: "other_than q k"
    by (auto simp: mount_waiting_def in_flight_def list_all_iff)
  have inv': "mount_waiting n q us ?s'"
    using inv m by (auto simp: mount_waiting_def in_flight_def map_of_filter_other list_all_iff)
  show ?thesis
  proof (cases k)
    case (LogoutTask p)
    with other inv' Some show ?thesis
      by (auto simp: deliver_def Let_def logout_resume_def mount_waiting_def in_flight_def
            promise_state_of_settle split: fetch_result.splits)
  next
    case (RedirectTask p)
    with other inv' Some show ?thesis
      by (auto simp: deliver_def Let_def redirectToLogin_resume_def mount_waiting_def
            in_flight_def promise_state_of_settle
            split: fetch_result.splits option.splits sum.splits)
  next
    case (ExchangeTask p)
    with other inv' Some show ?thesis
      by (auto simp: deliver_def Let_def exchange_resume_def mount_waiting_def in_flight_def
            promise_state_of_settle fetchUser_def await_on_def
            split: fetch_result.splits)
  qed (use other in simp_all)
qed

lemma step_mount_waiting:
  assumes "mount_waiting n q us s" and "\<not> answers n ev"
  shows "mount_waiting n q us (step FetchUserVariant ev s)"
  using assms
  by (cases ev) (simp_all add: mount_waiting_call mount_waiting_deliver)

lemma run_mount_waiting:
  assumes "mount_waiting n q us s" and "list_all (\<lambda>ev. \<not> answers n ev) evs"
  shows "mount_waiting n q us (run FetchUserVariant evs s)"
  using assms
  by (induction evs arbitrary: s) (simp_all add: step_mount_waiting)

text \<open>The bounds on the tables hold in every state.\<close>

lemma tables_bounded_iff:
  "tables_bounded s \<longleftrightarrow>
     (\<forall>nk \<in> set (awaiting s). fst nk < length (requests s))
     \<and> (\<forall>nk \<in> set (awaiting s). task_promise (snd nk) < length (promises s))
     \<and> (\<forall>qw \<in> set (waiters s). waiter_below (length (promises s)) (snd qw))"
  by (simp add: tables_bounded_def awaiting_bounded_iff list_all_iff)

lemma waiter_below_mono: "waiter_below m w \<Longrightarrow> m \<le> m' \<Longrightarrow> waiter_below m' w"
  by (cases w) simp_all

lemma resume_waiter_tables:
  "waiters (resume_waiter st w s) = waiters s"
  "awaiting (resume_waiter st w s) = awaiting s"
  by (simp_all add: resume_waiter_frame)

lemma refresh_user_tables: "tables_bounded s \<Longrightarrow> tables_bounded (snd (refresh_user v s))"
  by (cases v)
     (auto simp: tables_bounded_iff fetchUser_def loadUser_def new_promise_def less_Suc_eq
           intro: waiter_below_mono split: option.splits)

lemma call_tables:
  assumes "tables_bounded s"
  shows "tables_bounded (snd (logout s))"
    and "tables_bounded (snd (redirectToLogin s))"
    and "tables_bounded (snd (exchangeCodeForSessionToken s))"
    and "tables_bounded (s\<lparr> location_search := x \<rparr>)"
  using assms
  by (auto simp: tables_bounded_iff logout_def redirectToLogin_def
        exchangeCodeForSessionToken_def new_promise_def less_Suc_eq
        intro: waiter_below_mono split: option.splits)

lemma settle_and_notify_waiters:
  "waiters (settle_and_notify q st s) = filter (\<lambda>qw. fst qw \<noteq> q) (waiters s)"
  by (simp add: settle_and_notify_def fold_resume_waiter_frame)

lemma tables_transfer:
  assumes "tables_bounded s"
    and "set (awaiting t) \<subseteq> set (awaiting s)"
    and "set (waiters t) \<subseteq> set (waiters s)"
    and "length (requests s) \<le> length (requests t)"
    and "length (promises s) \<le> length (promises t)"
  shows "tables_bounded t"
proof -
  have "fst nk < length (requests t)" and "task_promise (snd nk) < length (promises t)"
    if "nk \<in> set (awaiting t)" for nk
  proof -
    from that assms(2) have "nk \<in> set (awaiting s)" by blast
    with assms(1) have "fst nk < length (requests s)"
      and "task_promise (snd nk) < length (promises s)"
      by (simp_all add: tables_bounded_iff)
    with assms(4,5) show "fst nk < length (requests t)"
      and "task_promise (snd nk) < length (promises t)"
      by simp_all
  qed
  moreover have "waiter_below (length (promises t)) (snd qw)" if "qw \<in> set (waiters t)" for qw
  proof -
    from that assms(3) have "qw \<in> set (waiters s)" by blast
    with assms(1) have "waiter_below (length (promises s)) (snd qw)"
      by (simp add: tables_bounded_iff)
    then show ?thesis
      using assms(5) by (rule waiter_below_mono)
  qed
  ultimately show ?thesis
    by (simp add: tables_bounded_iff)
qed

lemma await_on_tables:
  assumes "tables_bounded s" and "waiter_below (length (promises s)) w"
  shows "tables_bounded (await_on q w s)"
proof (cases "promise_state_of s q = Pending")
  case True
  with assms show ?thesis
    by (simp add: tables_bounded_iff await_on_def)
next
  case False
  have "tables_bounded (resume_waiter st w s)" for st
    by (rule tables_transfer [OF assms(1)]) (simp_all add: resume_waiter_frame)
  with False show ?thesis
    by (simp add: await_on_def split: promise_state.splits)
qed

lemma refresh_user_length:
  "length (promises s) \<le> length (promises (snd (refresh_user v s)))"
  by (cases v) (simp_all add: fetchUser_def loadUser_def new_promise_def split: option.splits)

lemma deliver_tables:
  assumes inv: "tables_bounded s"
  shows "tables_bounded (deliver v n r s)"
proof (cases "map_of (awaiting s) n")
  case None
  with inv show ?thesis by (simp add: deliver_def)
next
  case (Some k)
  let ?s' = "s\<lparr> awaiting := filter (\<lambda>mk. fst mk \<noteq> n) (awaiting s) \<rparr>"
  have inv': "tables_bounded ?s'"
    by (rule tables_transfer [OF inv]) simp_all
  from Some have mem: "(n, k) \<in> set (awaiting s)"
    by (rule map_of_SomeD)
  show ?thesis
  proof (cases k)
    case (UserTask q)
    have "tables_bounded (fetchUser_resume q r ?s')"
      by (rule tables_transfer [OF inv'])
         (simp_all add: fetchUser_resume_def fetchUser_finally_def settle_and_notify_frame
            settle_and_notify_waiters split: fetch_result.splits option.splits)
    with Some UserTask show ?thesis by (simp add: deliver_def Let_def)
  next
    case (LoadTask q)
    have "tables_bounded (loadUser_resume q r ?s')"
      by (rule tables_transfer [OF inv'])
         (simp_all add: loadUser_resume_def settle_and_notify_frame
            settle_and_notify_waiters split: fetch_result.splits option.splits)
    with Some LoadTask show ?thesis by (simp add: deliver_def Let_def)
  next
    case (LogoutTask q)
    have "tables_bounded (logout_resume q r ?s')"
      by (rule tables_transfer [OF inv'])
         (simp_all add: logout_resume_def split: fetch_result.splits)
    with Some LogoutTask show ?thesis by (simp add: deliver_def Let_def)
  next
    case (RedirectTask q)
    have "tables_bounded (redirectToLogin_resume q r ?s')"
      by (rule tables_transfer [OF inv'])
         (simp_all add: redirectToLogin_resume_def
            split: fetch_result.splits option.splits sum.splits)
    with Some RedirectTask show ?thesis by (simp add: deliver_def Let_def)
  next
    case (ExchangeTask q)
    obtain u s1 where rf: "refresh_user v ?s' = (u, s1)"
      by (cases "refresh_user v ?s'")
    have inv1: "tables_bounded s1"
      using refresh_user_tables [OF inv', of v] rf by simp
    have "q < length (promises s)"
      using inv mem ExchangeTask by (auto simp: tables_bounded_iff)
    then have "q < length (promises s1)"
      using refresh_user_length [of ?s' v] rf by simp
    then have a: "tables_bounded (await_on u (ExchangeWaits q) s1)"
      by (intro await_on_tables inv1) simp
    have b: "tables_bounded (settle q Fulfilled (console_error e ?s'))" for e
      by (rule tables_transfer [OF inv']) simp_all
    have "tables_bounded (exchange_resume v q r ?s')"
      using a b rf by (simp add: exchange_resume_def split: fetch_result.splits)
    with Some ExchangeTask show ?thesis by (simp add: deliver_def Let_def)
  qed
qed

lemma mount_tables:
  assumes inv: "tables_bounded s"
  shows "tables_bounded (mount s)"
proof -
  obtain u s1 where rf: "fetchUser s = (u, s1)"
    by (cases "fetchUser s")
  have "tables_bounded s1"
    using refresh_user_tables [OF inv, of FetchUserVariant] rf by simp
  then have "tables_bounded (await_on u MountWaits s1)"
    by (rule await_on_tables) simp
  with rf show ?thesis by (simp add: mount_def)
qed

lemma step_tables: "tables_bounded s \<Longrightarrow> tables_bounded (step v ev s)"
  by (cases "(v, ev, s)" rule: step.cases)
     (simp_all add: mount_tables refresh_user_tables call_tables deliver_tables)

lemma run_tables: "tables_bounded s \<Longrightarrow> tables_bounded (run v evs s)"
  by (induction evs arbitrary: s) (simp_all add: step_tables)

lemma init_tables: "tables_bounded (init x)"
  by (simp add: tables_bounded_def awaiting_bounded_def init_def)

lemma plain_other_than: "plain_task k \<Longrightarrow> task_promise k < q \<Longrightarrow> other_than q k"
  by (cases k) simp_all

lemma other_than_plain: "other_than q k \<Longrightarrow> plain_task k"
  by (cases k) simp_all

lemma waiter_below_other: "waiter_below q w \<Longrightarrow> w \<noteq> ExchangeWaits q"
  by (cases w) auto

text \<open>Starting a user fetch on an idle provider.\<close>

lemma idle_fetchUser:
  assumes "idle s" and "tables_bounded s"
  shows "fst (fetchUser s) = length (promises s)"
    and "in_flight (length (requests s)) (length (promises s)) (snd (fetchUser s))"
    and "waiters (snd (fetchUser s)) = waiters s"
    and "isPending (snd (fetchUser s)) = isPending s"
proof -
  let ?n = "length (requests s)" and ?q = "length (promises s)"
  have none: "userRef s = None"
    using assms(1) by (simp add: idle_def)
  have fresh: "\<forall>nk \<in> set (awaiting s). fst nk \<noteq> ?n"
    using assms(2) by (auto simp: tables_bounded_iff)
  have key: "map_of (awaiting s @ [(?n, UserTask ?q)]) ?n = Some (UserTask ?q)"
    using fresh by (rule map_of_fresh_key)
  have others: "\<forall>nk \<in> set (awaiting s). other_than ?q (snd nk)"
    using assms by (auto simp: idle_def tables_bounded_iff list_all_iff intro: plain_other_than)
  have ws: "\<forall>qw \<in> set (waiters s). snd qw \<noteq> ExchangeWaits ?q"
    using assms(2) by (auto simp: tables_bounded_iff dest: waiter_below_other)
  show "fst (fetchUser s) = ?q" "waiters (snd (fetchUser s)) = waiters s"
    "isPending (snd (fetchUser s)) = isPending s"
    using none by (simp_all add: fetchUser_def new_promise_def)
  show "in_flight ?n ?q (snd (fetchUser s))"
    using none key others ws
    by (simp add: in_flight_def fetchUser_def new_promise_def promise_state_of_def
          list_all_iff)
qed

lemma idle_call:
  assumes "idle s"
  shows "idle (snd (logout s))"
    and "idle (snd (redirectToLogin s))"
    and "idle (snd (exchangeCodeForSessionToken s))"
    and "idle (s\<lparr> location_search := x \<rparr>)"
  using assms
  by (auto simp: idle_def logout_def redirectToLogin_def exchangeCodeForSessionToken_def
        new_promise_def split: option.splits)

text \<open>The answer to the request of the user fetch leaves the provider idle.\<close>

lemma in_flight_answer:
  assumes "in_flight n q s"
  shows "idle (deliver FetchUserVariant n r s)"
proof -
  let ?s' = "s\<lparr> awaiting := filter (\<lambda>mk. fst mk \<noteq> n) (awaiting s) \<rparr>"
  have d: "deliver FetchUserVariant n r s = fetchUser_resume q r ?s'"
    using assms by (simp add: in_flight_def deliver_def Let_def)
  have "list_all (\<lambda>nk. plain_task (snd nk)) (awaiting ?s')"
    using assms by (fastforce simp: in_flight_def list_all_iff intro: other_than_plain)
  then show ?thesis
    by (simp add: d idle_def fetchUser_resume_clears_slot fetchUser_resume_def
          fetchUser_finally_def settle_and_notify_frame
          split: fetch_result.splits option.splits)
qed

lemma idle_deliver:
  assumes i: "idle s" and t: "tables_bounded s"
  shows "idle (deliver FetchUserVariant m r s) \<or> (\<exists>n q. in_flight n q (deliver FetchUserVariant m r s))"
proof (cases "map_of (awaiting s) m")
  case None
  with i show ?thesis by (simp add: deliver_def)
next
  case (Some k)
  let ?s' = "s\<lparr> awaiting := filter (\<lambda>mk. fst mk \<noteq> m) (awaiting s) \<rparr>"
  from Some have mem: "(m, k) \<in> set (awaiting s)"
    by (rule map_of_SomeD)
  with i have plain: "plain_task k"
    by (auto simp: idle_def list_all_iff)
  have i': "idle ?s'"
    using i by (auto simp: idle_def list_all_iff)
  have t': "tables_bounded ?s'"
    by (rule tables_transfer [OF t]) simp_all
  show ?thesis
  proof (cases k)
    case (LogoutTask p)
    with i' Some show ?thesis
      by (auto simp: deliver_def Let_def logout_resume_def idle_def split: fetch_result.splits)
  next
    case (RedirectTask p)
    with i' Some show ?thesis
      by (auto simp: deliver_def Let_def redirectToLogin_resume_def idle_def
            split: fetch_result.splits option.splits sum.splits)
  next
    case (ExchangeTask p)
    have p: "p < length (promises s)"
      using t mem ExchangeTask by (auto simp: tables_bounded_iff)
    let ?n = "length (requests ?s')" and ?q = "length (promises ?s')"
    obtain u s1 where rf: "fetchUser ?s' = (u, s1)"
      by (cases "fetchUser ?s'")
    have fl: "in_flight ?n ?q s1" and fq: "u = ?q"
      using idle_fetchUser [OF i' t'] rf by simp_all
    have pend: "promise_state_of s1 ?q = Pending"
      using fl by (simp add: in_flight_def)
    have "in_flight ?n ?q (await_on ?q (ExchangeWaits p) s1)"
      using fl pend p by (auto simp: in_flight_def await_on_def)
    then have ok: "in_flight ?n ?q (exchange_resume FetchUserVariant p (Resolved resp) ?s')"
      if "ok resp" for resp
      using that fq rf by (simp add: exchange_resume_def)
    have bad: "idle (settle p Fulfilled (console_error e ?s'))" for e
      using i' by (simp add: idle_def)
    show ?thesis
    proof (cases r)
      case (Rejected e)
      with bad Some ExchangeTask show ?thesis
        by (simp add: deliver_def Let_def exchange_resume_def)
    next
      case (Resolved resp)
      show ?thesis
      proof (cases "ok resp")
        case True
        with ok [OF True] Some ExchangeTask Resolved show ?thesis
          by (auto simp: deliver_def Let_def)
      next
        case False
        with bad Some ExchangeTask Resolved show ?thesis
          by (simp add: deliver_def Let_def exchange_resume_def)
      qed
    qed
  qed (use plain in simp_all)
qed

lemma in_flight_key:
  assumes "in_flight n q s" and "map_of (awaiting s) m = Some (UserTask p)"
  shows "m = n"
proof -
  from assms(2) have "(m, UserTask p) \<in> set (awaiting s)"
    by (rule map_of_SomeD)
  with assms(1) show ?thesis
    by (auto simp: in_flight_def list_all_iff)
qed

lemma in_flight_await_mount:
  assumes "in_flight n q s"
  shows "await_on q MountWaits s = s\<lparr> waiters := waiters s @ [(q, MountWaits)] \<rparr>"
    and "in_flight n q (await_on q MountWaits s)"
  using assms by (simp_all add: in_flight_def await_on_def)

text \<open>
  The mount effect, in any state a provider can reach: the fetch it joins or starts is
  in flight afterwards, its promise is awaited by the effect, and \<open>isPending\<close> is as
  it was.
\<close>

lemma mount_joins:
  assumes "user_fetch_wf s"
  shows "\<exists>n. in_flight n (fst (fetchUser s)) (mount s)"
    and "(fst (fetchUser s), MountWaits) \<in> set (waiters (mount s))"
    and "isPending (mount s) = isPending s"
proof -
  obtain q s1 where rf: "fetchUser s = (q, s1)"
    by (cases "fetchUser s")
  have "\<exists>n. in_flight n q s1 \<and> isPending s1 = isPending s"
  proof (cases "idle s")
    case True
    with assms idle_fetchUser [OF True, of] rf show ?thesis
      by (auto simp: user_fetch_wf_def)
  next
    case False
    with assms obtain n p where fl: "in_flight n p s"
      by (auto simp: user_fetch_wf_def)
    then have "fetchUser s = (p, s)"
      by (simp add: in_flight_def fetchUser_in_flight)
    with rf fl show ?thesis by auto
  qed
  then obtain n where fl: "in_flight n q s1" and ip: "isPending s1 = isPending s"
    by blast
  have m: "mount s = s1\<lparr> waiters := waiters s1 @ [(q, MountWaits)] \<rparr>"
    using rf in_flight_await_mount(1) [OF fl] by (simp add: mount_def)
  show "\<exists>n. in_flight n (fst (fetchUser s)) (mount s)"
    using rf in_flight_await_mount(2) [OF fl] by (auto simp: mount_def)
  show "(fst (fetchUser s), MountWaits) \<in> set (waiters (mount s))"
    using rf m by simp
  show "isPending (mount s) = isPending s"
    using m ip by simp
qed

lemma step_user_fetch_wf:
  assumes "user_fetch_wf s"
  shows "user_fetch_wf (step FetchUserVariant ev s)"
proof -
  have t: "tables_bounded s" and t': "tables_bounded (step FetchUserVariant ev s)"
    using assms by (simp_all add: user_fetch_wf_def step_tables)
  have "idle (step FetchUserVariant ev s) \<or> (\<exists>n q. in_flight n q (step FetchUserVariant ev s))"
  proof (cases "idle s")
    case True
    show ?thesis
    proof (cases ev)
      case Mount
      with mount_joins(1) [OF assms] show ?thesis by auto
    next
      case CallFetchUser
      with idle_fetchUser(2) [OF True t] show ?thesis by auto
    next
      case (Respond m r)
      with idle_deliver [OF True t] show ?thesis by simp
    qed (use idle_call [OF True] in simp_all)
  next
    case False
    with assms obtain n q where fl: "in_flight n q s"
      by (auto simp: user_fetch_wf_def)
    show ?thesis
    proof (cases "answers n ev")
      case True
      then obtain r where "ev = Respond n r"
        by (cases ev) simp_all
      with in_flight_answer [OF fl] show ?thesis by simp
    next
      case False
      with in_flight_step [OF fl] show ?thesis by blast
    qed
  qed
  with t' show ?thesis by (simp add: user_fetch_wf_def)
qed

lemma run_user_fetch_wf:
  "user_fetch_wf s \<Longrightarrow> user_fetch_wf (run FetchUserVariant evs s)"
  by (induction evs arbitrary: s) (simp_all add: step_user_fetch_wf)

lemma init_user_fetch_wf: "user_fetch_wf (init x)"
  using init_tables [of x] by (simp add: user_fetch_wf_def idle_def init_def)

text \<open>
  From the mount effect to the answer: whatever else happens, \<open>isPending\<close> stays
  \<open>true\<close> and no further request goes to \<open>/api/users/me\<close>; the answer clears
  \<open>isPending\<close>.
\<close>

lemma mount_until_answer:
  assumes wf: "user_fetch_wf s" and pend: "isPending s"
    and key: "map_of (awaiting (mount s)) n = Some (UserTask (fst (fetchUser s)))"
    and evs: "list_all (\<lambda>ev. \<not> answers n ev) evs"
  shows "isPending (run FetchUserVariant evs (mount s))"
    and "user_requests (run FetchUserVariant evs (mount s)) = user_requests (mount s)"
    and "\<not> isPending (step FetchUserVariant (Respond n r) (run FetchUserVariant evs (mount s)))"
proof -
  let ?q = "fst (fetchUser s)"
  obtain n' where "in_flight n' ?q (mount s)"
    using mount_joins(1) [OF wf] by blast
  with in_flight_key [OF this key] have "in_flight n ?q (mount s)"
    by simp
  then have "mount_waiting n ?q (user_requests (mount s)) (mount s)"
    using mount_joins(2,3) [OF wf] pend by (simp add: mount_waiting_def)
  then have w: "mount_waiting n ?q (user_requests (mount s)) (run FetchUserVariant evs (mount s))"
    using evs by (rule run_mount_waiting)
  then show "isPending (run FetchUserVariant evs (mount s))"
    and "user_requests (run FetchUserVariant evs (mount s)) = user_requests (mount s)"
    by (simp_all add: mount_waiting_def)
  show "\<not> isPending (step FetchUserVariant (Respond n r) (run FetchUserVariant evs (mount s)))"
    using w by (simp add: mount_waiting_def in_flight_def deliver_clears_isPending)
qed

lemma mount_fresh:
  "map_of (awaiting (mount (init x))) 0 = Some (UserTask (fst (fetchUser (init x))))"
  "requests (mount (init x)) = [current_user_request]"
  "user_requests (mount (init x)) = [current_user_request]"
  "isPending (init x)"
  "isPending (mount (init x))"
  by (simp_all add: mount_def fetchUser_def await_on_def new_promise_def
        init_def promise_state_of_def user_requests_def current_user_request_def requests_def)

lemma mount_sample:
  "userRef (init []) = None
   \<and> userRef (mount (init [])) \<noteq> None
   \<and> list_all (\<lambda>ev. \<not> answers 0 ev) [Mount, CallFetchUser, CallLogout, Respond 1 (okresp JNull)]
   \<and> \<not> isPending (step FetchUserVariant (Respond 0 unauthorized) (mount (init [])))
   \<and> isPending (run FetchUserVariant [CallExchange] (init [(''code'', ''abc123'')]))
   \<and> map_of (awaiting (mount (run FetchUserVariant [CallExchange] (init [(''code'', ''abc123'')])))) 1
       = Some (UserTask (fst (fetchUser (run FetchUserVariant [CallExchange] (init [(''code'', ''abc123'')])))))
   \<and> list_all (\<lambda>ev. \<not> answers 1 ev) [Respond 0 unauthorized, CallLogout, Mount]
   \<and> isPending (run FetchUserVariant [CallFetchUser] (init []))
   \<and> map_of (awaiting (mount (run FetchUserVariant [CallFetchUser] (init [])))) 0
       = Some (UserTask (fst (fetchUser (run FetchUserVariant [CallFetchUser] (init [])))))
   \<and> list_all (\<lambda>ev. \<not> answers 0 ev) [CallFetchUser, CallLogout]
   \<and> promise_state_of (run FetchUserVariant [CallFetchUser, Respond 0 unauthorized] (init [])) 0
       \<noteq> Pending
   \<and> isPending (run FetchUserVariant [CallFetchUser, Respond 0 unauthorized] (init []))"
  by code_simp

section \<open>Properties of the coordinator\<close>

text \<open>
  The properties are stated over both variants of the provider wherever the code is
  common to them (\<open>v\<close> ranges over the variants); where the variants differ, the
  statement names the one it is about.
\<close>

text \<open>
  C1 on the \<open>loadUser\<close> variant. After \<open>loadUser()\<close> and the answer to its
  request, the promise has settled but \<open>userRef\<close> still holds it: a further
  \<open>loadUser()\<close> returns the settled promise and sends no request, so the log still
  has the single first request. (\<open>fetchUser\<close> resets \<open>userRef\<close> in its
  \<open>finally\<close> block and does start afresh: lemmas \<open>fetchUser_in_flight\<close> and
  \<open>fetchUser_fresh_after_answer\<close>.)
\<close>

theorem loadUser_slot_never_cleared:
  "promise_state_of
     (run LoadUserVariant [CallFetchUser, Respond 0 (okresp sample_user)] (init [])) 0 = Fulfilled
   \<and> userRef (run LoadUserVariant [CallFetchUser, Respond 0 (okresp sample_user)] (init []))
       = Some 0
   \<and> fst (loadUser (run LoadUserVariant [CallFetchUser, Respond 0 (okresp sample_user)] (init [])))
       = 0
   \<and> requests
        (snd (loadUser
               (run LoadUserVariant [CallFetchUser, Respond 0 (okresp sample_user)] (init []))))
       = [current_user_request]"
  by code_simp



text \<open>
  C5 on the \<open>fetchUser\<close> variant. A first \<open>fetchUser()\<close> succeeds and stores
  the user. A second \<open>fetchUser()\<close> is answered with status 401: its promise is
  rejected, and the stored user is still the record of the first fetch, not \<open>null\<close>.
  (\<open>loadUser\<close> stores \<open>null\<close> on every failure: lemma
  \<open>loadUser_resume_user\<close>.)
\<close>

theorem fetchUser_failure_keeps_user:
  "user (run FetchUserVariant [CallFetchUser, Respond 0 (okresp sample_user)] (init []))
     = sample_user
   \<and> promise_state_of
        (run FetchUserVariant
           [CallFetchUser, Respond 0 (okresp sample_user), CallFetchUser, Respond 1 unauthorized]
           (init [])) 1
       = RejectedWith (Error ''Failed to fetch user: API responded with HTTP status 401'')
   \<and> user
        (run FetchUserVariant
           [CallFetchUser, Respond 0 (okresp sample_user), CallFetchUser, Respond 1 unauthorized]
           (init [])) = sample_user
   \<and> sample_user \<noteq> JNull"
  by code_simp

text \<open>
  C6. When no exchange has been started (\<open>exchangeRef\<close> is empty) and the page has
  no \<open>code\<close> parameter (or an empty one, which \<open>!code\<close> rejects as well),
  \<open>exchangeCodeForSessionToken\<close> throws instead of returning a promise, and the
  provider is left exactly as it was: no request has been sent. This holds in both
  variants of the provider.
\<close>

theorem exchange_without_code_fails_synchronously:
  "exchangeRef s = None
   \<and> (map_of (location_search s) ''code'' = None \<or> map_of (location_search s) ''code'' = Some [])
   \<longrightarrow> exchangeCodeForSessionToken s = (Inl no_code_error, s)
       \<and> requests (snd (exchangeCodeForSessionToken s)) = requests s
       \<and> step v CallExchange s = s"
  by (auto simp: exchangeCodeForSessionToken_def)

theorem exchange_without_code_fails_synchronously_witness:
  "exchangeCodeForSessionToken (init []) = (Inl no_code_error, init [])
   \<and> requests (snd (exchangeCodeForSessionToken (init []))) = []
   \<and> exchangeCodeForSessionToken (init [(''code'', [])]) = (Inl no_code_error, init [(''code'', [])])"
  using exchange_without_code_fails_synchronously [of "init []"]
        exchange_without_code_fails_synchronously [of "init [(''code'', [])]"]
  by (simp add: init_def requests_def)

text \<open>
  C7, as amended. \<open>logout\<close> sets the user to \<open>null\<close> and only then sends the
  request to \<open>/api/logout\<close>. The continuation that runs when that request settles
  does not write the user, and it fulfils the promise of \<open>logout\<close> whether
  \<open>fetch\<close> was rejected or not: nothing is restored, nothing propagates. In every
  reachable state, \<open>logout\<close> followed at once by any answer to its request ends with
  no user. A step stores a user only when it is an \<open>ok\<close> response with a JSON body
  to the request of a user fetch; so after \<open>logout\<close> the user stays \<open>null\<close>
  until such a response arrives.
\<close>

theorem logout_locally_effective:
  "user (snd (logout s)) = JNull
   \<and> effects (snd (logout s)) = effects s @ [SetUser JNull, Fetch logout_request]
   \<and> (map_of (awaiting s) n = Some (LogoutTask p) \<and> p < length (promises s)
        \<longrightarrow> user (deliver v n r s) = user s
            \<and> promise_state_of (deliver v n r s) p = Fulfilled)
   \<and> user (deliver v (length (requests (run v evs (init q)))) r
              (snd (logout (run v evs (init q))))) = JNull
   \<and> promise_state_of
         (deliver v (length (requests (run v evs (init q)))) r
            (snd (logout (run v evs (init q)))))
         (fst (logout (run v evs (init q)))) = Fulfilled
   \<and> (user (step v ev s) \<noteq> user s \<and> user (step v ev s) \<noteq> JNull
        \<longrightarrow> (\<exists>m resp u. ev = Respond m (Resolved resp) \<and> ok resp
                 \<and> json resp = Some (user (step v ev s))
                 \<and> (map_of (awaiting s) m = Some (UserTask u)
                      \<or> map_of (awaiting s) m = Some (LoadTask u))))"
proof -
  let ?s0 = "run v evs (init q)"
  let ?s1 = "snd (logout ?s0)"
  let ?p = "length (promises ?s0)"
  have "awaiting_bounded ?s0"
    by (rule run_bounded [OF init_bounded])
  then have "\<forall>nk \<in> set (awaiting ?s0). fst nk \<noteq> length (requests ?s0)"
    by (auto simp: awaiting_bounded_iff)
  then have key: "map_of (awaiting ?s1) (length (requests ?s0)) = Some (LogoutTask ?p)"
    unfolding logout_effects by (rule map_of_fresh_key)
  have len: "?p < length (promises ?s1)"
    by (simp add: logout_effects)
  have iso: "user (deliver v (length (requests ?s0)) r ?s1) = JNull"
    "promise_state_of (deliver v (length (requests ?s0)) r ?s1) (fst (logout ?s0)) = Fulfilled"
    using deliver_logout(1) [OF key, of v r] deliver_logout(3) [OF key len, of v r]
    by (simp_all add: logout_effects)
  show ?thesis
    using iso step_user_written [of v ev s]
    by (auto simp: logout_effects deliver_logout)
qed

theorem logout_locally_effective_witness:
  "map_of (awaiting (snd (logout (init [])))) 0 = Some (LogoutTask 0)
   \<and> 0 < length (promises (snd (logout (init []))))
   \<and> user (deliver LoadUserVariant 0 (Rejected (NetworkError ''offline'')) (snd (logout (init []))))
       = user (snd (logout (init [])))
   \<and> promise_state_of
        (deliver LoadUserVariant 0 (Rejected (NetworkError ''offline'')) (snd (logout (init [])))) 0
       = Fulfilled
   \<and> user (step FetchUserVariant (Respond 0 (okresp sample_user)) (snd (fetchUser (init []))))
       \<noteq> user (snd (fetchUser (init [])))
   \<and> user (step FetchUserVariant (Respond 0 (okresp sample_user)) (snd (fetchUser (init []))))
       \<noteq> JNull
   \<and> (\<exists>m resp u. Respond 0 (okresp sample_user) = Respond m (Resolved resp) \<and> ok resp
         \<and> json resp
             = Some (user (step FetchUserVariant (Respond 0 (okresp sample_user))
                             (snd (fetchUser (init [])))))
         \<and> (map_of (awaiting (snd (fetchUser (init [])))) m = Some (UserTask u)
              \<or> map_of (awaiting (snd (fetchUser (init [])))) m = Some (LoadTask u)))"
  using logout_locally_effective
          [of "snd (logout (init []))" 0 0 LoadUserVariant "Rejected (NetworkError ''offline'')"
              "[]" "[]" CallLogout]
        logout_locally_effective
          [of "snd (fetchUser (init []))" 0 0 FetchUserVariant "Rejected (NetworkError ''offline'')"
              "[]" "[]" "Respond 0 (okresp sample_user)"]
        logout_sample
  by blast

text \<open>
  C7, as stated, fails when a user fetch is in flight: \<open>fetchUser()\<close>, then
  \<open>logout()\<close>, then the \<open>ok\<close> answer to \<open>/api/users/me\<close>, then the answer to
  \<open>/api/logout\<close>. The promise of \<open>logout\<close> (promise 1) is fulfilled and the
  provider holds a user.
\<close>

theorem logout_race_counterexample:
  "fst (logout (run FetchUserVariant [CallFetchUser] (init []))) = 1
   \<and> promise_state_of
        (run FetchUserVariant
           [CallFetchUser, CallLogout, Respond 0 (okresp sample_user), Respond 1 (okresp JNull)]
           (init [])) 1 = Fulfilled
   \<and> user
        (run FetchUserVariant
           [CallFetchUser, CallLogout, Respond 0 (okresp sample_user), Respond 1 (okresp JNull)]
           (init [])) \<noteq> JNull"
  by code_simp

text \<open>
  C9, as stated, fails on the provider with \<open>loadUser\<close>, which the claim cites
  too: it has no mount effect, so mounting it starts no operation. No request is sent,
  no promise is created and \<open>userRef\<close> stays empty.
\<close>

theorem mount_loadUser_counterexample:
  "requests (run LoadUserVariant [Mount] (init [])) = []
   \<and> promises (run LoadUserVariant [Mount] (init [])) = []
   \<and> userRef (run LoadUserVariant [Mount] (init [])) = None"
  by code_simp

text \<open>
  C9, as amended. The mount effect of the provider that tracks \<open>isPending\<close> (the one
  with \<open>fetchUser\<close>) calls \<open>fetchUser\<close> once: on a freshly rendered provider (and
  whenever no user fetch is in flight) it sends exactly one request, to
  \<open>/api/users/me\<close>; when a fetch is in flight it joins it and sends nothing.
  On a fresh provider, \<open>isPending\<close> is still \<open>true\<close> after every sequence of events
  that does not contain the answer to that request (request 0), and over that time the
  log holds one request to \<open>/api/users/me\<close>, also when the effect runs twice or a
  consumer calls \<open>fetchUser\<close>; the answer to request 0 sets \<open>isPending\<close> to
  \<open>false\<close>, whatever the answer is. Nothing sets it back to \<open>true\<close>.

  The same holds when the effect runs in any state \<open>s\<^sub>0\<close> the provider reaches
  from a fresh one by events \<open>evs\<^sub>0\<close> (effects of children, which run first; earlier
  requests; a fetch in flight). The fetch that the effect starts or joins, whose promise
  is \<open>fst (fetchUser s\<^sub>0)\<close>, awaits the answer to some request; the effect leaves
  \<open>isPending\<close> as it was; and if \<open>isPending\<close> was \<open>true\<close> and \<open>n\<close> is that
  request, then after every sequence of events that does not contain the answer to
  request \<open>n\<close>, \<open>isPending\<close> is still \<open>true\<close> and no further request has gone to
  \<open>/api/users/me\<close>, and the answer to request \<open>n\<close> sets \<open>isPending\<close> to
  \<open>false\<close>, whatever the answer is. A promise that has already settled when the
  effect awaits it clears \<open>isPending\<close> at once.

  The provider with \<open>loadUser\<close> has no mount effect and no \<open>isPending\<close>:
  mounting it changes nothing.
\<close>

theorem mount_fetches_once:
  "requests (mount (init q)) = [current_user_request]
   \<and> isPending (mount (init q))
   \<and> (userRef s = None \<longrightarrow> requests (mount s) = requests s @ [current_user_request])
   \<and> (userRef s \<noteq> None \<longrightarrow> requests (mount s) = requests s)
   \<and> (list_all (\<lambda>ev. \<not> answers 0 ev) evs
        \<longrightarrow> isPending (run FetchUserVariant evs (mount (init q)))
            \<and> length (user_requests (run FetchUserVariant evs (mount (init q)))) = 1
            \<and> \<not> isPending (step FetchUserVariant (Respond 0 r)
                               (run FetchUserVariant evs (mount (init q)))))
   \<and> (\<not> isPending s \<longrightarrow> \<not> isPending (step v ev s))
   \<and> (\<exists>m. map_of (awaiting (mount (run FetchUserVariant evs0 (init q)))) m
              = Some (UserTask (fst (fetchUser (run FetchUserVariant evs0 (init q))))))
   \<and> isPending (mount (run FetchUserVariant evs0 (init q)))
       = isPending (run FetchUserVariant evs0 (init q))
   \<and> (isPending (run FetchUserVariant evs0 (init q))
        \<and> map_of (awaiting (mount (run FetchUserVariant evs0 (init q)))) n
            = Some (UserTask (fst (fetchUser (run FetchUserVariant evs0 (init q)))))
        \<and> list_all (\<lambda>ev. \<not> answers n ev) evs
        \<longrightarrow> isPending (run FetchUserVariant evs (mount (run FetchUserVariant evs0 (init q))))
            \<and> user_requests (run FetchUserVariant evs (mount (run FetchUserVariant evs0 (init q))))
                = user_requests (mount (run FetchUserVariant evs0 (init q)))
            \<and> \<not> isPending (step FetchUserVariant (Respond n r)
                  (run FetchUserVariant evs (mount (run FetchUserVariant evs0 (init q))))))
   \<and> (promise_state_of s p \<noteq> Pending \<longrightarrow> \<not> isPending (await_on p MountWaits s))
   \<and> step LoadUserVariant Mount s = s"
proof -
  let ?s0 = "run FetchUserVariant evs0 (init q)"
  have wf0: "user_fetch_wf (init q)" and wf: "user_fetch_wf ?s0"
    by (simp_all add: init_user_fetch_wf run_user_fetch_wf)
  have fresh: "isPending (run FetchUserVariant evs (mount (init q)))
      \<and> length (user_requests (run FetchUserVariant evs (mount (init q)))) = 1
      \<and> \<not> isPending (step FetchUserVariant (Respond 0 r)
                          (run FetchUserVariant evs (mount (init q))))"
    if "list_all (\<lambda>ev. \<not> answers 0 ev) evs"
    using mount_until_answer [OF wf0 mount_fresh(4) mount_fresh(1) that]
    by (simp add: mount_fresh)
  have joined: "\<exists>m. map_of (awaiting (mount ?s0)) m = Some (UserTask (fst (fetchUser ?s0)))"
    using mount_joins(1) [OF wf] by (auto simp: in_flight_def)
  have general: "isPending (run FetchUserVariant evs (mount ?s0))
      \<and> user_requests (run FetchUserVariant evs (mount ?s0)) = user_requests (mount ?s0)
      \<and> \<not> isPending (step FetchUserVariant (Respond n r) (run FetchUserVariant evs (mount ?s0)))"
    if "isPending ?s0"
      and "map_of (awaiting (mount ?s0)) n = Some (UserTask (fst (fetchUser ?s0)))"
      and "list_all (\<lambda>ev. \<not> answers n ev) evs"
    using mount_until_answer [OF wf that] by simp
  have settled: "\<not> isPending (await_on p MountWaits s)" if "promise_state_of s p \<noteq> Pending"
    using that by (simp add: await_on_isPending)
  show ?thesis
    using fresh joined general settled mount_joins(3) [OF wf] mount_requests [of s]
      step_isPending_mono [of s v ev]
    by (auto simp: mount_fresh)
qed

theorem mount_fetches_once_witness:
  "userRef (init []) = None
   \<and> requests (mount (init [])) = requests (init []) @ [current_user_request]
   \<and> userRef (mount (init [])) \<noteq> None
   \<and> requests (mount (mount (init []))) = requests (mount (init []))
   \<and> list_all (\<lambda>ev. \<not> answers 0 ev) [Mount, CallFetchUser, CallLogout, Respond 1 (okresp JNull)]
   \<and> isPending (run FetchUserVariant [Mount, CallFetchUser, CallLogout, Respond 1 (okresp JNull)]
                  (mount (init [])))
   \<and> length (user_requests
        (run FetchUserVariant [Mount, CallFetchUser, CallLogout, Respond 1 (okresp JNull)]
           (mount (init [])))) = 1
   \<and> \<not> isPending (step FetchUserVariant (Respond 0 unauthorized)
        (run FetchUserVariant [Mount, CallFetchUser, CallLogout, Respond 1 (okresp JNull)]
           (mount (init []))))
   \<and> \<not> isPending (step FetchUserVariant (Respond 0 unauthorized) (mount (init [])))
   \<and> \<not> isPending (step FetchUserVariant Mount
        (step FetchUserVariant (Respond 0 unauthorized) (mount (init []))))
   \<and> isPending (run FetchUserVariant [CallExchange] (init [(''code'', ''abc123'')]))
   \<and> map_of (awaiting (mount (run FetchUserVariant [CallExchange] (init [(''code'', ''abc123'')])))) 1
       = Some (UserTask (fst (fetchUser (run FetchUserVariant [CallExchange] (init [(''code'', ''abc123'')])))))
   \<and> list_all (\<lambda>ev. \<not> answers 1 ev) [Respond 0 unauthorized, CallLogout, Mount]
   \<and> isPending (run FetchUserVariant [Respond 0 unauthorized, CallLogout, Mount]
        (mount (run FetchUserVariant [CallExchange] (init [(''code'', ''abc123'')]))))
   \<and> \<not> isPending (step FetchUserVariant (Respond 1 unauthorized)
        (run FetchUserVariant [Respond 0 unauthorized, CallLogout, Mount]
          (mount (run FetchUserVariant [CallExchange] (init [(''code'', ''abc123'')])))))
   \<and> isPending (run FetchUserVariant [CallFetchUser] (init []))
   \<and> map_of (awaiting (mount (run FetchUserVariant [CallFetchUser] (init [])))) 0
       = Some (UserTask (fst (fetchUser (run FetchUserVariant [CallFetchUser] (init [])))))
   \<and> list_all (\<lambda>ev. \<not> answers 0 ev) [CallFetchUser, CallLogout]
   \<and> isPending (run FetchUserVariant [CallFetchUser, CallLogout]
        (mount (run FetchUserVariant [CallFetchUser] (init []))))
   \<and> user_requests (run FetchUserVariant [CallFetchUser, CallLogout]
        (mount (run FetchUserVariant [CallFetchUser] (init []))))
       = user_requests (mount (run FetchUserVariant [CallFetchUser] (init [])))
   \<and> \<not> isPending (step FetchUserVariant (Respond 0 (okresp sample_user))
        (run FetchUserVariant [CallFetchUser, CallLogout]
          (mount (run FetchUserVariant [CallFetchUser] (init [])))))
   \<and> promise_state_of (run FetchUserVariant [CallFetchUser, Respond 0 unauthorized] (init [])) 0
       \<noteq> Pending
   \<and> isPending (run FetchUserVariant [CallFetchUser, Respond 0 unauthorized] (init []))
   \<and> \<not> isPending (await_on 0 MountWaits
        (run FetchUserVariant [CallFetchUser, Respond 0 unauthorized] (init [])))
   \<and> step LoadUserVariant Mount (init []) = init []"
proof -
  let ?evsA = "[Mount, CallFetchUser, CallLogout, Respond 1 (okresp JNull)]"
  let ?sX = "run FetchUserVariant [CallExchange] (init [(''code'', ''abc123'')])"
  let ?evsX = "[Respond 0 unauthorized, CallLogout, Mount]"
  let ?sF = "run FetchUserVariant [CallFetchUser] (init [])"
  let ?evsF = "[CallFetchUser, CallLogout]"
  let ?sS = "run FetchUserVariant [CallFetchUser, Respond 0 unauthorized] (init [])"
  note sample = mount_sample
  have a: "requests (mount (init [])) = requests (init []) @ [current_user_request]
      \<and> isPending (run FetchUserVariant ?evsA (mount (init [])))
      \<and> length (user_requests (run FetchUserVariant ?evsA (mount (init [])))) = 1
      \<and> \<not> isPending (step FetchUserVariant (Respond 0 unauthorized)
            (run FetchUserVariant ?evsA (mount (init []))))
      \<and> step LoadUserVariant Mount (init []) = init []"
    using mount_fetches_once
            [where q = "[]" and s = "init []" and evs = ?evsA
               and r = unauthorized and v = FetchUserVariant and ev = Mount
               and ?evs0.0 = "[]" and n = 0 and p = 0]
          sample
    by meson
  have b: "requests (mount (mount (init []))) = requests (mount (init []))"
    using mount_fetches_once
            [where q = "[]" and s = "mount (init [])" and evs = "[]"
               and r = unauthorized and v = FetchUserVariant and ev = Mount
               and ?evs0.0 = "[]" and n = 0 and p = 0]
          sample
    by meson
  have c: "\<not> isPending (step FetchUserVariant Mount
        (step FetchUserVariant (Respond 0 unauthorized) (mount (init []))))"
    using mount_fetches_once
            [where q = "[]"
               and s = "step FetchUserVariant (Respond 0 unauthorized) (mount (init []))"
               and evs = "[]" and r = unauthorized and v = FetchUserVariant and ev = Mount
               and ?evs0.0 = "[]" and n = 0 and p = 0]
          sample
    by meson
  have d: "isPending (run FetchUserVariant ?evsX (mount ?sX))
      \<and> \<not> isPending (step FetchUserVariant (Respond 1 unauthorized)
            (run FetchUserVariant ?evsX (mount ?sX)))"
    using mount_fetches_once
            [where q = "[(''code'', ''abc123'')]" and s = "init []" and evs = ?evsX
               and r = unauthorized and v = FetchUserVariant and ev = Mount
               and ?evs0.0 = "[CallExchange]" and n = 1 and p = 0]
          sample
    by meson
  have e: "isPending (run FetchUserVariant ?evsF (mount ?sF))
      \<and> user_requests (run FetchUserVariant ?evsF (mount ?sF)) = user_requests (mount ?sF)
      \<and> \<not> isPending (step FetchUserVariant (Respond 0 (okresp sample_user))
            (run FetchUserVariant ?evsF (mount ?sF)))"
    using mount_fetches_once
            [where q = "[]" and s = "init []" and evs = ?evsF
               and r = "okresp sample_user" and v = FetchUserVariant and ev = Mount
               and ?evs0.0 = "[CallFetchUser]" and n = 0 and p = 0]
          sample
    by meson
  have f: "\<not> isPending (await_on 0 MountWaits ?sS)"
    using mount_fetches_once
            [where q = "[]" and s = ?sS and evs = "[]"
               and r = unauthorized and v = FetchUserVariant and ev = Mount
               and ?evs0.0 = "[]" and n = 0 and p = 0]
          sample
    by meson
  show ?thesis
    using a b c d e f sample by meson
qed

text \<open>
  C10. Once an exchange has been started, so that \<open>exchangeRef\<close> holds its promise
  \<open>p\<close>, every later call of \<open>exchangeCodeForSessionToken\<close>, after any events
  whatever, returns \<open>p\<close> and changes nothing. The result does not depend on the
  query parameters: the call returns \<open>p\<close> for every value of the page's parameters,
  also when there is no \<open>code\<close> among them, since the slot is tested first.
\<close>

theorem exchange_after_start_ignores_url:
  "exchangeRef s = Some p
   \<longrightarrow> exchangeCodeForSessionToken (run v evs s) = (Inr p, run v evs s)
       \<and> exchangeCodeForSessionToken ((run v evs s)\<lparr> location_search := q \<rparr>)
           = (Inr p, (run v evs s)\<lparr> location_search := q \<rparr>)"
  by (simp add: exchangeCodeForSessionToken_def run_exchangeRef)

theorem exchange_after_start_ignores_url_witness:
  "exchangeRef (step FetchUserVariant CallExchange (init [(''code'', ''abc123'')])) = Some 0
   \<and> exchangeCodeForSessionToken
        (run FetchUserVariant [SetLocation []]
           (step FetchUserVariant CallExchange (init [(''code'', ''abc123'')])))
       = (Inr 0, run FetchUserVariant [SetLocation []]
                   (step FetchUserVariant CallExchange (init [(''code'', ''abc123'')])))
   \<and> map_of (location_search
         (run FetchUserVariant [SetLocation []]
           (step FetchUserVariant CallExchange (init [(''code'', ''abc123'')])))) ''code'' = None"
  using exchange_after_start_ignores_url
          [of "step FetchUserVariant CallExchange (init [(''code'', ''abc123'')])" 0
              FetchUserVariant "[SetLocation []]" "[]"]
  by (simp add: exchangeCodeForSessionToken_def init_def new_promise_def)

end
